theory Spec2Isabelle
  imports Complex_Main "HOL-Library.Log_Nat"
begin

section \<open>JavaScript numbers\<close>

text \<open>
  Every number of \<^verbatim>\<open>script.js\<close> is an IEEE-754 binary64 value. A finite double is
  modelled by the real number it denotes, and the arithmetic operators \<^verbatim>\<open>+\<close>,
  \<^verbatim>\<open>-\<close> and \<^verbatim>\<open>*\<close> round the exact result to the nearest double, ties to the even
  significand (\<open>fl64\<close>): 53 bits of significand, gradual underflow with the smallest
  spacing \<open>2 ^ -1074\<close>. Comparisons are exact. Results beyond the largest finite double
  (overflow to Infinity) are outside the model: the program computes with angles in
  degrees and with seconds.
\<close>

definition round_even :: "real \<Rightarrow> int" where
  "round_even r = (let f = \<lfloor>r\<rfloor>; d = r - of_int f in
     if d < 1/2 then f else if 1/2 < d then f + 1 else if even f then f else f + 1)"

definition emin :: nat where
  "emin = 1074"

text \<open>The spacing of the doubles around \<open>x\<close> is \<open>2 ^ ulp_shift x / 2 ^ emin\<close>.\<close>

definition ulp_shift :: "real \<Rightarrow> nat" where
  "ulp_shift x = nat (bitlen \<lfloor>\<bar>x\<bar> * 2 ^ emin\<rfloor> - 53)"

definition fl64 :: "real \<Rightarrow> real" where
  "fl64 x = (let u = 2 ^ ulp_shift x / 2 ^ emin in sgn x * of_int (round_even (\<bar>x\<bar> / u)) * u)"

definition fadd :: "real \<Rightarrow> real \<Rightarrow> real" where
  "fadd a b = fl64 (a + b)"

definition fsub :: "real \<Rightarrow> real \<Rightarrow> real" where
  "fsub a b = fl64 (a - b)"

definition fmul :: "real \<Rightarrow> real \<Rightarrow> real" where
  "fmul a b = fl64 (a * b)"

text \<open>Half the spacing of the smallest doubles, \<open>2 ^ -1075\<close>.\<close>

definition eta :: real where
  "eta = 1 / 2 ^ Suc emin"

text \<open>
  What \<^verbatim>\<open>computeKneeAngle\<close> hands back: \<^verbatim>\<open>null\<close> (\<open>None\<close>), a number, or
  \<^verbatim>\<open>NaN\<close>.
\<close>

datatype jsnum = Num real | NaN






text \<open>\<^verbatim>\<open>a || b\<close> on a nullable number: \<^verbatim>\<open>null\<close> and \<^verbatim>\<open>0\<close> are falsy.\<close>

definition or_else :: "real option \<Rightarrow> real \<Rightarrow> real" where
  "or_else a b = (case a of None \<Rightarrow> b | Some v \<Rightarrow> if v = 0 then b else v)"

text \<open>A nullable number in an arithmetic or relational position: \<^verbatim>\<open>null\<close> converts to \<open>0\<close>.\<close>

definition to_number :: "real option \<Rightarrow> real" where
  "to_number a = (case a of None \<Rightarrow> 0 | Some v \<Rightarrow> v)"

datatype js_error = TypeError

section \<open>Data\<close>

text \<open>
  A keypoint of the pose estimator is \<^verbatim>\<open>{name, x, y, score}\<close>; the objects kept in
  \<^verbatim>\<open>lastGood\<close> are \<^verbatim>\<open>{x, y, score}\<close>, with no name. The coordinates are the
  fields \<open>kp_x\<close> and \<open>kp_y\<close>.
\<close>

record keypoint =
  name :: "string option"
  kp_x :: real
  kp_y :: real
  score :: real

record pose =
  keypoints :: "keypoint list option"

text \<open>
  \<^verbatim>\<open>getStableKeypoint\<close> is called with three literal names only; they index the
  three entries of \<^verbatim>\<open>lastGood\<close>, which has one \<^verbatim>\<open>timestamp\<close> beside them.
\<close>

datatype landmark = RightHip | RightKnee | RightAnkle

fun key :: "landmark \<Rightarrow> string" where
  "key RightHip = ''right_hip''"
| "key RightKnee = ''right_knee''"
| "key RightAnkle = ''right_ankle''"

record last_good =
  right_hip :: "keypoint option"
  right_knee :: "keypoint option"
  right_ankle :: "keypoint option"
  timestamp :: real

fun entry :: "landmark \<Rightarrow> last_good \<Rightarrow> keypoint option" where
  "entry RightHip lg = right_hip lg"
| "entry RightKnee lg = right_knee lg"
| "entry RightAnkle lg = right_ankle lg"

fun set_entry :: "landmark \<Rightarrow> keypoint \<Rightarrow> last_good \<Rightarrow> last_good" where
  "set_entry RightHip v lg = lg\<lparr>right_hip := Some v\<rparr>"
| "set_entry RightKnee v lg = lg\<lparr>right_knee := Some v\<rparr>"
| "set_entry RightAnkle v lg = lg\<lparr>right_ankle := Some v\<rparr>"

datatype rep_state = BENT | EXTENDING | FLEXING

datatype level = Ok | Warn | Bad

text \<open>
  The texts written to the page, with the interpolated values as arguments:
  \<open>MaxAngle m\<close> is \<^verbatim>\<open>Max Angle: ${m.toFixed(1)}\<close> followed by the degree sign,
  \<open>RepTooFast n\<close> is \<^verbatim>\<open>Rep ${n}: Too fast. Slow down your movement.\<close>, and so on in
  the order of the source.
\<close>

datatype angle_text = NotDetected | Invalid | Dashes | MaxAngle real

datatype feedback_text =
    ModelReady | Extending | GreatExtension | AlmostStraight | TooShallow
  | RepExcellent nat | RepGood nat | RepExtendMore nat
  | Empty | RepTooFast nat | RepGoodTempo nat

record feedback =
  text_of :: feedback_text
  level_of :: level

text \<open>
  The module-level variables and the page elements the script writes. An element the
  script has not written yet holds what the markup gave it (\<open>None\<close>). \<^verbatim>\<open>repCount\<close>
  holds a small integer, on which \<^verbatim>\<open>+= 1\<close> is exact below \<open>2 ^ 53\<close>; it is a
  natural number here.
\<close>

record session =
  lastGood :: last_good
  smoothedAngle :: "real option"
  state :: rep_state
  repCount :: nat
  repStartTime :: "real option"
  extendStartTime :: "real option"
  flexStartTime :: "real option"
  maxAngleThisRep :: "real option"
  angleDisplay :: "angle_text option"
  repInfo :: "nat option"
  angleFeedback :: "feedback option"
  speedFeedback :: "feedback option"

definition SMOOTHING_ALPHA :: real where
  "SMOOTHING_ALPHA = fl64 (3 / 10)"

definition MAX_GAP_SEC :: real where
  "MAX_GAP_SEC = fl64 (3 / 10)"

definition BENT_THRESHOLD :: real where
  "BENT_THRESHOLD = 110"

definition STRAIGHT_TARGET :: real where
  "STRAIGHT_TARGET = 165"

definition ANGLE_OK_MARGIN :: real where
  "ANGLE_OK_MARGIN = 5"

definition MIN_REP_TIME :: real where
  "MIN_REP_TIME = 5"

definition MIN_PHASE_TIME :: real where
  "MIN_PHASE_TIME = 2"

text \<open>The default of the parameter \<^verbatim>\<open>minScore\<close>, the literal \<^verbatim>\<open>0.3\<close>.\<close>

definition minScore_default :: real where
  "minScore_default = fl64 (3 / 10)"

text \<open>
  The variables as the source initialises them, and the page after \<^verbatim>\<open>main\<close> has
  announced the model, which it does before the first frame.
\<close>

definition initial :: session where
  "initial = \<lparr>
     lastGood = \<lparr>right_hip = None, right_knee = None, right_ankle = None, timestamp = 0\<rparr>,
     smoothedAngle = None, state = BENT, repCount = 0,
     repStartTime = None, extendStartTime = None, flexStartTime = None,
     maxAngleThisRep = None,
     angleDisplay = None, repInfo = None,
     angleFeedback = Some \<lparr>text_of = ModelReady, level_of = Ok\<rparr>,
     speedFeedback = None\<rparr>"

section \<open>Operations\<close>

definition setAngleFeedback :: "feedback_text \<Rightarrow> level \<Rightarrow> session \<Rightarrow> session" where
  "setAngleFeedback tx lv s = s\<lparr>angleFeedback := Some \<lparr>text_of = tx, level_of = lv\<rparr>\<rparr>"

definition setSpeedFeedback :: "feedback_text \<Rightarrow> level \<Rightarrow> session \<Rightarrow> session" where
  "setSpeedFeedback tx lv s = s\<lparr>speedFeedback := Some \<lparr>text_of = tx, level_of = lv\<rparr>\<rparr>"

definition getKeypoint :: "pose option \<Rightarrow> string \<Rightarrow> real \<Rightarrow> keypoint option" where
  "getKeypoint p n minScore =
     (case p of None \<Rightarrow> None
      | Some ps \<Rightarrow>
          (case keypoints ps of None \<Rightarrow> None
           | Some kps \<Rightarrow>
               (case find (\<lambda>k. name k = Some n) kps of None \<Rightarrow> None
                | Some kp \<Rightarrow> if score kp < minScore then None else Some kp)))"

definition getStableKeypoint ::
  "pose option \<Rightarrow> landmark \<Rightarrow> real \<Rightarrow> real \<Rightarrow> last_good \<Rightarrow> keypoint option \<times> last_good" where
  "getStableKeypoint p lm nowSec minScore lg =
     (case getKeypoint p (key lm) minScore of
        Some direct \<Rightarrow>
          (Some direct,
           (set_entry lm \<lparr>name = None, kp_x = kp_x direct, kp_y = kp_y direct,
                          score = score direct\<rparr> lg)\<lparr>timestamp := nowSec\<rparr>)
      | None \<Rightarrow>
          if entry lm lg \<noteq> None \<and> fsub nowSec (timestamp lg) \<le> MAX_GAP_SEC
          then (entry lm lg, lg)
          else (None, lg))"

text \<open>Lines 180 to 182: the smoothed angle after a valid sample.\<close>

definition smooth :: "real \<Rightarrow> real option \<Rightarrow> real" where
  "smooth angle sm =
     (let sm1 = (case sm of None \<Rightarrow> angle | Some v \<Rightarrow> v)
      in fadd (fmul SMOOTHING_ALPHA angle) (fmul (fsub 1 SMOOTHING_ALPHA) sm1))"

text \<open>
  The \<^verbatim>\<open>switch\<close> of \<^verbatim>\<open>updateLogic\<close>, on the smoothed angle. Where
  \<^verbatim>\<open>maxAngleThisRep\<close> is \<^verbatim>\<open>null\<close> the comparisons read it as \<open>0\<close> and
  \<^verbatim>\<open>toFixed\<close> throws.
\<close>

definition repStep :: "real \<Rightarrow> real \<Rightarrow> session \<Rightarrow> js_error + session" where
  "repStep angle nowSec s =
     (case state s of
        BENT \<Rightarrow>
          if angle \<le> BENT_THRESHOLD then Inr s
          else Inr (setSpeedFeedback Empty Ok (setAngleFeedback Extending Ok
                 (s\<lparr>state := EXTENDING, repStartTime := Some nowSec,
                    extendStartTime := Some nowSec, maxAngleThisRep := Some angle,
                    angleDisplay := Some Dashes\<rparr>)))
      | EXTENDING \<Rightarrow>
          (let mx = (if to_number (maxAngleThisRep s) < angle then Some angle
                     else maxAngleThisRep s);
               s1 = s\<lparr>maxAngleThisRep := mx\<rparr>
           in if angle < fsub (to_number mx) 1 then
                (case mx of
                   None \<Rightarrow> Inl TypeError
                 | Some m \<Rightarrow>
                     (let s2 = s1\<lparr>state := FLEXING, flexStartTime := Some nowSec,
                                  angleDisplay := Some (MaxAngle m)\<rparr>
                      in if fsub STRAIGHT_TARGET ANGLE_OK_MARGIN \<le> m
                         then Inr (setAngleFeedback GreatExtension Ok s2)
                         else if fsub STRAIGHT_TARGET 20 \<le> m
                         then Inr (setAngleFeedback AlmostStraight Warn s2)
                         else Inr (setAngleFeedback TooShallow Bad s2)))
              else Inr s1)
      | FLEXING \<Rightarrow>
          if angle \<le> BENT_THRESHOLD then
            (let repEndTime = nowSec;
                 totalTime = fsub repEndTime (or_else (repStartTime s) repEndTime);
                 extendTime = fsub (or_else (flexStartTime s) repEndTime)
                                (or_else (extendStartTime s)
                                   (or_else (repStartTime s) repEndTime));
                 flexTime = fsub repEndTime (or_else (flexStartTime s) repEndTime);
                 n = repCount s + 1;
                 s1 = s\<lparr>repCount := n, repInfo := Some n\<rparr>;
                 s2 = (if totalTime < MIN_REP_TIME \<or> extendTime < MIN_PHASE_TIME
                          \<or> flexTime < MIN_PHASE_TIME
                       then setSpeedFeedback (RepTooFast n) Bad s1
                       else setSpeedFeedback (RepGoodTempo n) Ok s1);
                 s3 = (if fsub STRAIGHT_TARGET ANGLE_OK_MARGIN \<le> to_number (maxAngleThisRep s)
                       then setAngleFeedback (RepExcellent n) Ok s2
                       else if fsub STRAIGHT_TARGET 20 \<le> to_number (maxAngleThisRep s)
                       then setAngleFeedback (RepGood n) Warn s2
                       else setAngleFeedback (RepExtendMore n) Bad s2)
             in Inr (s3\<lparr>state := BENT, repStartTime := None, extendStartTime := None,
                        flexStartTime := None, maxAngleThisRep := None\<rparr>))
          else Inr s)"


text \<open>
  The frame logic is stated for every angle function, the parameter \<open>angleOf\<close>; the
  program runs it with \<^verbatim>\<open>computeKneeAngle\<close>. The time \<^verbatim>\<open>performance.now() / 1000\<close> is
  \<open>nowSec\<close>.
\<close>

type_synonym angle_fn = "keypoint \<Rightarrow> keypoint \<Rightarrow> keypoint \<Rightarrow> jsnum option"

definition updateLogic ::
  "angle_fn \<Rightarrow> pose option \<Rightarrow> real \<Rightarrow> session \<Rightarrow> js_error + session" where
  "updateLogic angleOf p nowSec s =
     (let (hip, lg1) = getStableKeypoint p RightHip nowSec minScore_default (lastGood s);
          (knee, lg2) = getStableKeypoint p RightKnee nowSec minScore_default lg1;
          (ankle, lg3) = getStableKeypoint p RightAnkle nowSec minScore_default lg2;
          s0 = s\<lparr>lastGood := lg3\<rparr>
      in case (hip, knee, ankle) of
           (Some h, Some k, Some a) \<Rightarrow>
             (case angleOf h k a of
                None \<Rightarrow> Inr (s0\<lparr>angleDisplay := Some Invalid\<rparr>)
              | Some NaN \<Rightarrow> Inr (s0\<lparr>angleDisplay := Some Invalid\<rparr>)
              | Some (Num angle) \<Rightarrow>
                  (let sm = smooth angle (smoothedAngle s0)
                   in repStep sm nowSec (s0\<lparr>smoothedAngle := Some sm\<rparr>)))
         | _ \<Rightarrow> Inr (s0\<lparr>angleDisplay := Some NotDetected\<rparr>))"

text \<open>
  The render loop: one \<^verbatim>\<open>updateLogic\<close> per frame, in order; an exception ends the
  loop.
\<close>

fun run :: "angle_fn \<Rightarrow> (pose option \<times> real) list \<Rightarrow> session \<Rightarrow> js_error + session" where
  "run angleOf [] s = Inr s"
| "run angleOf ((p, nowSec) # frames) s =
     (case updateLogic angleOf p nowSec s of
        Inl e \<Rightarrow> Inl e
      | Inr s' \<Rightarrow> run angleOf frames s')"

section \<open>Runs and cycles\<close>

text \<open>The smoothed angle after a sequence of valid samples.\<close>

fun smooth_all :: "real list \<Rightarrow> real option \<Rightarrow> real option" where
  "smooth_all [] sm = sm"
| "smooth_all (a # as) sm = smooth_all as (Some (smooth a sm))"

text \<open>The state after each frame of a run, up to the first exception.\<close>

fun trace :: "angle_fn \<Rightarrow> (pose option \<times> real) list \<Rightarrow> session \<Rightarrow> rep_state list" where
  "trace angleOf [] s = []"
| "trace angleOf ((p, nowSec) # frames) s =
     (case updateLogic angleOf p nowSec s of
        Inl e \<Rightarrow> []
      | Inr s' \<Rightarrow> state s' # trace angleOf frames s')"

text \<open>
  The number of completed cycles BENT, EXTENDING, FLEXING, BENT in a sequence of states,
  read from the phase \<open>ph\<close> on: a phase advances only to its successor in the cycle,
  and the step from FLEXING back to BENT completes one.
\<close>

fun cycles :: "rep_state \<Rightarrow> rep_state list \<Rightarrow> nat" where
  "cycles ph [] = 0"
| "cycles ph (q # qs) =
     (if ph = FLEXING \<and> q = BENT then Suc (cycles BENT qs)
      else if (ph = BENT \<and> q = EXTENDING) \<or> (ph = EXTENDING \<and> q = FLEXING) then cycles q qs
      else cycles ph qs)"

section \<open>Predicates of the specification\<close>

text \<open>
  The tiering of the extension quality as the specification tabulates it: at least 160
  is good, at least 145 and below 160 is a warning, below 145 is bad.
\<close>

definition spec_tier :: "real \<Rightarrow> level" where
  "spec_tier m = (if 160 \<le> m then Ok else if 145 \<le> m then Warn else Bad)"

text \<open>The working fields that each state of the machine holds.\<close>

definition fields_ok :: "session \<Rightarrow> bool" where
  "fields_ok s =
     ((state s = BENT \<longrightarrow> repStartTime s = None \<and> extendStartTime s = None \<and>
         flexStartTime s = None \<and> maxAngleThisRep s = None) \<and>
      (state s = EXTENDING \<longrightarrow> repStartTime s \<noteq> None \<and> extendStartTime s \<noteq> None \<and>
         maxAngleThisRep s \<noteq> None) \<and>
      (state s = FLEXING \<longrightarrow> repStartTime s \<noteq> None \<and> extendStartTime s \<noteq> None \<and>
         flexStartTime s \<noteq> None \<and> maxAngleThisRep s \<noteq> None))"

text \<open>No recorded time is the falsy number \<open>0\<close>.\<close>

definition times_nonzero :: "session \<Rightarrow> bool" where
  "times_nonzero s =
     (repStartTime s \<noteq> Some 0 \<and> extendStartTime s \<noteq> Some 0 \<and> flexStartTime s \<noteq> Some 0)"

section \<open>An example session\<close>

text \<open>
  A pose with the three landmarks at full confidence, an angle function that reads the
  sample from the hip's coordinate, and three frames that take the machine through one
  cycle: 128 degrees at second 1, then two samples of 0 at seconds 4 and 7.
\<close>

definition example_pose :: "real \<Rightarrow> pose option" where
  "example_pose v = Some \<lparr>keypoints = Some
     [\<lparr>name = Some ''right_hip'', kp_x = v, kp_y = 0, score = 1\<rparr>,
      \<lparr>name = Some ''right_knee'', kp_x = 0, kp_y = 0, score = 1\<rparr>,
      \<lparr>name = Some ''right_ankle'', kp_x = 0, kp_y = 1, score = 1\<rparr>]\<rparr>"

definition example_angle :: angle_fn where
  "example_angle h k a = Some (Num (kp_x h))"

definition example_cache :: "real \<Rightarrow> real \<Rightarrow> last_good" where
  "example_cache v t =
     \<lparr>right_hip = Some \<lparr>name = None, kp_x = v, kp_y = 0, score = 1\<rparr>,
      right_knee = Some \<lparr>name = None, kp_x = 0, kp_y = 0, score = 1\<rparr>,
      right_ankle = Some \<lparr>name = None, kp_x = 0, kp_y = 1, score = 1\<rparr>,
      timestamp = t\<rparr>"

definition example_extending :: session where
  "example_extending =
     \<lparr>lastGood = example_cache 128 1, smoothedAngle = Some 128, state = EXTENDING,
      repCount = 0, repStartTime = Some 1, extendStartTime = Some 1, flexStartTime = None,
      maxAngleThisRep = Some 128, angleDisplay = Some Dashes, repInfo = None,
      angleFeedback = Some \<lparr>text_of = Extending, level_of = Ok\<rparr>,
      speedFeedback = Some \<lparr>text_of = Empty, level_of = Ok\<rparr>\<rparr>"

definition example_flexing :: session where
  "example_flexing =
     \<lparr>lastGood = example_cache 0 4, smoothedAngle = Some (3152519739159347 / 35184372088832),
      state = FLEXING, repCount = 0, repStartTime = Some 1, extendStartTime = Some 1,
      flexStartTime = Some 4, maxAngleThisRep = Some 128,
      angleDisplay = Some (MaxAngle 128), repInfo = None,
      angleFeedback = Some \<lparr>text_of = TooShallow, level_of = Bad\<rparr>,
      speedFeedback = Some \<lparr>text_of = Empty, level_of = Ok\<rparr>\<rparr>"

definition example_done :: session where
  "example_done =
     \<lparr>lastGood = example_cache 0 7, smoothedAngle = Some (8827055269646171 / 140737488355328),
      state = BENT, repCount = 1, repStartTime = None, extendStartTime = None,
      flexStartTime = None, maxAngleThisRep = None,
      angleDisplay = Some (MaxAngle 128), repInfo = Some 1,
      angleFeedback = Some \<lparr>text_of = RepExtendMore 1, level_of = Bad\<rparr>,
      speedFeedback = Some \<lparr>text_of = RepGoodTempo 1, level_of = Ok\<rparr>\<rparr>"

definition example_frames :: "(pose option \<times> real) list" where
  "example_frames = [(example_pose 128, 1), (example_pose 0, 4), (example_pose 0, 7)]"

text \<open>
  A cache whose only entry, for the hip, is of low confidence and was stored at second 1.
\<close>

definition example_stale :: last_good where
  "example_stale =
     \<lparr>right_hip = Some \<lparr>name = None, kp_x = 3, kp_y = 4, score = 1 / 10\<rparr>,
      right_knee = None, right_ankle = None, timestamp = 1\<rparr>"

text \<open>The keypoints a pose contains; a missing pose contains none.\<close>

definition pose_keypoints :: "pose option \<Rightarrow> keypoint list" where
  "pose_keypoints p =
     (case p of None \<Rightarrow> []
      | Some ps \<Rightarrow> (case keypoints ps of None \<Rightarrow> [] | Some kps \<Rightarrow> kps))"

section \<open>The parts of the angle computation\<close>







text \<open>The partial sums of the series of the arctangent.\<close>

definition arctan_sum :: "real \<Rightarrow> nat \<Rightarrow> real" where
  "arctan_sum x n = (\<Sum>i<n. (- 1) ^ i * (1 / real (i * 2 + 1) * x ^ (i * 2 + 1)))"

section \<open>Properties of the rounding\<close>

lemma round_even_error: "\<bar>of_int (round_even r) - r\<bar> \<le> 1/2"
  unfolding round_even_def Let_def by (auto simp: abs_le_iff)

lemma round_even_of_int [simp]: "round_even (of_int n) = n"
  unfolding round_even_def Let_def by simp

lemma fl64_zero [simp]: "fl64 0 = 0"
  by (simp add: fl64_def)

lemma fl64_half_ulp: "\<bar>fl64 x - x\<bar> \<le> (2 ^ ulp_shift x / 2 ^ emin) / 2"
proof -
  define u :: real where "u = 2 ^ ulp_shift x / 2 ^ emin"
  have u: "0 < u" by (simp add: u_def)
  define R where "R = round_even (\<bar>x\<bar> / u)"
  have fl: "fl64 x = sgn x * (of_int R * u)"
    by (simp add: fl64_def Let_def u_def R_def)
  have "x = sgn x * \<bar>x\<bar>" by (simp add: sgn_mult_abs)
  then have "fl64 x - x = sgn x * (of_int R * u - \<bar>x\<bar>)"
    unfolding fl by (metis right_diff_distrib)
  then have "\<bar>fl64 x - x\<bar> = \<bar>sgn x\<bar> * \<bar>of_int R * u - \<bar>x\<bar>\<bar>"
    by (simp add: abs_mult)
  also have "\<dots> \<le> \<bar>of_int R * u - \<bar>x\<bar>\<bar>"
    by (cases "x = 0") (simp_all add: abs_sgn_eq)
  also have "of_int R * u - \<bar>x\<bar> = (of_int R - \<bar>x\<bar> / u) * u"
    using u by (simp add: left_diff_distrib)
  also have "\<bar>\<dots>\<bar> = \<bar>of_int R - \<bar>x\<bar> / u\<bar> * u"
    using u by (simp add: abs_mult)
  also have "\<dots> \<le> (1/2) * u"
    using round_even_error [of "\<bar>x\<bar> / u"] u unfolding R_def
    by (intro mult_right_mono) simp_all
  finally show ?thesis by (simp add: u_def)
qed

lemma fl64_error: "\<bar>fl64 x - x\<bar> \<le> max (\<bar>x\<bar> / 2 ^ 53) (1 / 2 ^ Suc emin)"
proof (cases "ulp_shift x = 0")
  case True
  with fl64_half_ulp [of x] show ?thesis by simp
next
  case False
  define N where "N = \<lfloor>\<bar>x\<bar> * 2 ^ emin\<rfloor>"
  define s where "s = ulp_shift x"
  from False have s: "bitlen N = int s + 53" "0 < s"
    by (auto simp: s_def ulp_shift_def N_def)
  then have "int (s + 53) \<le> bitlen N" by simp
  then have "2 ^ (nat (int (s + 53)) - 1) \<le> N"
    unfolding bitlen_ge_iff_power by simp
  moreover have "nat (int (s + 53)) - 1 = s + 52" by simp
  ultimately have "2 ^ (s + 52) \<le> N" by metis
  then have "(2::real) ^ (s + 52) \<le> of_int N"
    by (metis of_int_le_iff of_int_numeral of_int_power)
  also have "\<dots> \<le> \<bar>x\<bar> * 2 ^ emin" by (simp add: N_def)
  finally have "(2::real) ^ s * 2 ^ 52 \<le> \<bar>x\<bar> * 2 ^ emin" by (simp add: power_add)
  then have "(2 ^ s / 2 ^ emin) / 2 \<le> \<bar>x\<bar> / 2 ^ 53"
    by (simp add: field_simps)
  with fl64_half_ulp [of x] show ?thesis unfolding s_def by linarith
qed

lemma eta_pos: "0 < eta"
  by (simp add: eta_def del: power_Suc)

lemma fl64_err: "\<bar>fl64 x - x\<bar> \<le> \<bar>x\<bar> / 2 ^ 53 + eta"
proof -
  have "max (\<bar>x\<bar> / 2 ^ 53) eta \<le> \<bar>x\<bar> / 2 ^ 53 + eta"
    using eta_pos by simp
  with fl64_error [of x] show ?thesis unfolding eta_def by linarith
qed

lemma fl64_eval:
  assumes "2 ^ 52 \<le> \<bar>x\<bar> * 2 ^ k" and "\<bar>x\<bar> * 2 ^ k < 2 ^ 53" and "k \<le> emin"
  shows "fl64 x = sgn x * of_int (round_even (\<bar>x\<bar> * 2 ^ k)) / 2 ^ k"
proof -
  define N where "N = \<lfloor>\<bar>x\<bar> * 2 ^ emin\<rfloor>"
  define j where "j = emin - k"
  have k: "emin = k + j" using assms(3) by (simp add: j_def)
  have sc: "\<bar>x\<bar> * 2 ^ emin = \<bar>x\<bar> * 2 ^ k * 2 ^ j"
    by (simp add: k power_add)
  have "(2::real) ^ (52 + j) \<le> \<bar>x\<bar> * 2 ^ emin"
    unfolding sc power_add using assms(1) by (intro mult_right_mono) simp_all
  then have "of_int (2 ^ (52 + j)) \<le> \<bar>x\<bar> * 2 ^ emin" by simp
  then have lo: "2 ^ (52 + j) \<le> N" unfolding N_def by (subst le_floor_iff)
  have "\<bar>x\<bar> * 2 ^ emin < (2::real) ^ (53 + j)"
    unfolding sc power_add using assms(2) by (intro mult_strict_right_mono) simp_all
  then have "\<bar>x\<bar> * 2 ^ emin < of_int (2 ^ (53 + j))" by simp
  then have hi: "N < 2 ^ (53 + j)" unfolding N_def by (subst floor_less_iff)
  have "bitlen N \<le> int (53 + j)" unfolding bitlen_le_iff_power nat_int using hi by simp
  moreover have "int (53 + j) \<le> bitlen N" unfolding bitlen_ge_iff_power nat_int using lo by simp
  ultimately have "bitlen N = int (53 + j)" by simp
  then have sh: "ulp_shift x = j" by (simp add: ulp_shift_def N_def)
  have u: "(2::real) ^ j / 2 ^ emin = 1 / 2 ^ k"
    by (simp add: k power_add)
  show ?thesis by (simp add: fl64_def Let_def sh u)
qed

lemma fl64_of_int:
  assumes "\<bar>n\<bar> < 2 ^ 53"
  shows "fl64 (of_int n) = of_int n"
proof (cases "n = 0")
  case True then show ?thesis by simp
next
  case False
  define m where "m = \<bar>n\<bar>"
  have m: "0 < m" "m < 2 ^ 53" using False assms by (auto simp: m_def)
  define b where "b = nat (bitlen m)"
  have b: "bitlen m = int b" by (simp add: b_def bitlen_nonneg)
  have "bitlen m \<le> 53" using m by (simp add: bitlen_le_iff_power)
  then have b53: "b \<le> 53" by (simp add: b_def)
  have b0: "0 < b" using m bitlen_eq_zero_iff [of m] bitlen_nonneg [of m] by (simp add: b_def)
  define k where "k = 53 - b"
  have nb: "nat (int b - 1) = b - 1" by simp
  from bitlen_bounds [OF m(1)] have bd: "2 ^ (b - 1) \<le> m" "m < 2 ^ b"
    unfolding b nb nat_int by simp_all
  have e1: "52 = (b - 1) + k" and e2: "53 = b + k" using b53 b0 by (simp_all add: k_def)
  have "2 ^ (b - 1) * 2 ^ k \<le> m * 2 ^ k" using bd(1) by (intro mult_right_mono) simp_all
  then have lo: "2 ^ 52 \<le> m * 2 ^ k" unfolding e1 power_add .
  have "m * 2 ^ k < 2 ^ b * 2 ^ k" using bd(2) by (intro mult_strict_right_mono) simp_all
  then have hi: "m * 2 ^ k < 2 ^ 53" unfolding e2 power_add .
  have ax: "\<bar>real_of_int n\<bar> * 2 ^ k = of_int (m * 2 ^ k)" by (simp add: m_def)
  have re: "round_even (\<bar>real_of_int n\<bar> * 2 ^ k) = m * 2 ^ k"
    unfolding ax by (rule round_even_of_int)
  have "(2::real) ^ 52 \<le> of_int (m * 2 ^ k)" using lo
    by (metis of_int_le_iff of_int_numeral of_int_power)
  then have h1: "2 ^ 52 \<le> \<bar>real_of_int n\<bar> * 2 ^ k" unfolding ax .
  have "of_int (m * 2 ^ k) < (2::real) ^ 53" using hi
    by (metis of_int_less_iff of_int_numeral of_int_power)
  then have h2: "\<bar>real_of_int n\<bar> * 2 ^ k < 2 ^ 53" unfolding ax .
  have h3: "k \<le> emin" by (simp add: k_def emin_def)
  have "fl64 (of_int n) = sgn (of_int n) * of_int (m * 2 ^ k) / 2 ^ k"
    unfolding fl64_eval [OF h1 h2 h3] re ..
  also have "\<dots> = sgn (real_of_int n) * \<bar>of_int n\<bar>" by (simp add: m_def)
  also have "\<dots> = of_int n" by (simp add: sgn_mult_abs)
  finally show ?thesis .
qed

lemma fl64_numeral: "numeral w < (2::int) ^ 53 \<Longrightarrow> fl64 (numeral w) = numeral w"
  using fl64_of_int [of "numeral w"] by simp

lemma fl64_one [simp]: "fl64 1 = 1"
  using fl64_of_int [of 1] by simp

lemma thresholds:
  "fsub STRAIGHT_TARGET ANGLE_OK_MARGIN = 160" "fsub STRAIGHT_TARGET 20 = 145"
  by (simp_all add: fsub_def STRAIGHT_TARGET_def ANGLE_OK_MARGIN_def fl64_numeral)

lemma fsub_one_le:
  assumes "\<bar>v\<bar> \<le> 2 ^ 52"
  shows "fsub v 1 \<le> v"
proof -
  have "\<bar>v - 1\<bar> \<le> 2 ^ 52 + 1" using assms by linarith
  then have "\<bar>v - 1\<bar> / 2 ^ 53 \<le> 1" by simp
  moreover have "(1::real) \<le> 2 ^ Suc emin" by (rule one_le_power) simp
  then have "1 / 2 ^ Suc emin \<le> (1::real)" by (simp del: power_Suc)
  ultimately have "max (\<bar>v - 1\<bar> / 2 ^ 53) (1 / 2 ^ Suc emin) \<le> 1" by simp
  with fl64_error [of "v - 1"] have "\<bar>fl64 (v - 1) - (v - 1)\<bar> \<le> 1" by linarith
  then show ?thesis unfolding fsub_def by linarith
qed

lemma three_tenths: "fl64 (3 / 10) = 5404319552844595 / 2 ^ 54"
  by (subst fl64_eval [where k = 54]) (simp_all add: emin_def round_even_def Let_def)

lemma seven_tenths: "fl64 (7 / 10) = 6305039478318694 / 2 ^ 53"
  by (subst fl64_eval [where k = 53]) (simp_all add: emin_def round_even_def Let_def)

lemma one_minus_alpha: "fsub 1 SMOOTHING_ALPHA = 6305039478318694 / 2 ^ 53"
  unfolding SMOOTHING_ALPHA_def three_tenths fsub_def
  by (subst fl64_eval [where k = 53]) (simp_all add: emin_def round_even_def Let_def)

lemma fl64_quarter: "fl64 (1 / 4) = 1 / 4"
  by (subst fl64_eval [where k = 54]) (simp_all add: emin_def round_even_def Let_def)

lemma gap_examples:
  "fsub (5 / 4) 1 \<le> MAX_GAP_SEC" "MAX_GAP_SEC < fsub 2 1" "fsub (41 / 4) 10 \<le> MAX_GAP_SEC"
  "MAX_GAP_SEC < fsub (41 / 4) 1"
proof -
  have a: "(5 / 4 - 1 :: real) = 1 / 4" "(41 / 4 - 10 :: real) = 1 / 4" "(41 / 4 - 1 :: real) = 37 / 4"
    by simp_all
  have b: "fl64 (37 / 4) = 37 / 4"
    by (subst fl64_eval [where k = 49]) (simp_all add: emin_def round_even_def Let_def)
  show "fsub (5 / 4) 1 \<le> MAX_GAP_SEC" "MAX_GAP_SEC < fsub 2 1" "fsub (41 / 4) 10 \<le> MAX_GAP_SEC"
    "MAX_GAP_SEC < fsub (41 / 4) 1"
    unfolding fsub_def a fl64_quarter b MAX_GAP_SEC_def three_tenths
    by (simp_all add: fl64_numeral)
qed

section \<open>The arithmetic of the smoothing\<close>

lemma smooth_eq:
  "smooth angle sm = fl64 (fl64 (5404319552844595 / 2 ^ 54 * angle) +
     fl64 (6305039478318694 / 2 ^ 53 * (case sm of None \<Rightarrow> angle | Some v \<Rightarrow> v)))"
  unfolding smooth_def Let_def one_minus_alpha
  by (simp add: fadd_def fmul_def SMOOTHING_ALPHA_def three_tenths)

lemma smooth_literals:
  "smooth a sm = fadd (fmul (fl64 (3 / 10)) a)
     (fmul (fl64 (7 / 10)) (case sm of None \<Rightarrow> a | Some v \<Rightarrow> v))"
  unfolding smooth_def Let_def one_minus_alpha seven_tenths by (simp add: SMOOTHING_ALPHA_def)

lemma blend_error:
  fixes a s D :: real
  assumes "\<bar>s - a\<bar> \<le> D"
  shows "\<bar>fl64 (fl64 (5404319552844595 / 2 ^ 54 * a) + fl64 (6305039478318694 / 2 ^ 53 * s)) - a\<bar>
           \<le> 3 * \<bar>a\<bar> / 2 ^ 53 + 71 / 100 * D + 4 * eta"
proof -
  define A where "A = \<bar>a\<bar>"
  define p where "p = fl64 (5404319552844595 / 2 ^ 54 * a)"
  define q where "q = fl64 (6305039478318694 / 2 ^ 53 * s)"
  define r where "r = fl64 (p + q)"
  define X1 where "X1 = p - 5404319552844595 / 2 ^ 54 * a"
  define X2 where "X2 = q - 6305039478318694 / 2 ^ 53 * s"
  define X3 where "X3 = r - (p + q)"
  define d where "d = s - a"
  have A: "a \<le> A" "- a \<le> A" "0 \<le> A" by (simp_all add: A_def)
  have D: "d \<le> D" "- d \<le> D" "0 \<le> D" using assms by (simp_all add: d_def abs_le_iff)
  have e: "0 < eta" by (rule eta_pos)
  have sA: "\<bar>s\<bar> \<le> A + D" using assms unfolding A_def by linarith
  have "\<bar>X1\<bar> \<le> \<bar>5404319552844595 / 2 ^ 54 * a\<bar> / 2 ^ 53 + eta"
    unfolding X1_def p_def by (rule fl64_err)
  also have "\<bar>5404319552844595 / 2 ^ 54 * a\<bar> = 5404319552844595 / 2 ^ 54 * A"
    by (simp add: abs_mult A_def)
  finally have "\<bar>X1\<bar> \<le> 5404319552844595 / 2 ^ 54 * A / 2 ^ 53 + eta" .
  then have x1: "X1 \<le> 5404319552844595 * A / 162259276829213363391578010288128 + eta"
    "- X1 \<le> 5404319552844595 * A / 162259276829213363391578010288128 + eta"
    by (simp_all add: abs_le_iff)
  have "\<bar>X2\<bar> \<le> \<bar>6305039478318694 / 2 ^ 53 * s\<bar> / 2 ^ 53 + eta"
    unfolding X2_def q_def by (rule fl64_err)
  also have "\<bar>6305039478318694 / 2 ^ 53 * s\<bar> = 6305039478318694 / 2 ^ 53 * \<bar>s\<bar>"
    by (simp add: abs_mult)
  finally have "\<bar>X2\<bar> \<le> 6305039478318694 * \<bar>s\<bar> / 81129638414606681695789005144064 + eta"
    by simp
  with sA have "\<bar>X2\<bar> \<le> 6305039478318694 * (A + D) / 81129638414606681695789005144064 + eta"
    by argo
  then have x2: "X2 \<le> 6305039478318694 * (A + D) / 81129638414606681695789005144064 + eta"
    "- X2 \<le> 6305039478318694 * (A + D) / 81129638414606681695789005144064 + eta"
    by (simp_all add: abs_le_iff)
  have pq: "p + q = X1 + X2 + 5404319552844595 * a / 18014398509481984
      + 6305039478318694 * (a + d) / 9007199254740992"
    by (simp add: X1_def X2_def d_def)
  have "\<bar>p + q\<bar> \<le> (A + D) * (9007199254740993 / 9007199254740992) + 2 * eta"
    unfolding pq using x1 x2 A D e by argo
  moreover have "\<bar>X3\<bar> \<le> \<bar>p + q\<bar> / 9007199254740992 + eta"
    using fl64_err [of "p + q"] by (simp add: X3_def r_def)
  ultimately have "\<bar>X3\<bar> \<le> ((A + D) * (9007199254740993 / 9007199254740992) + 2 * eta)
      / 9007199254740992 + eta"
    by argo
  then have x3: "X3 \<le> ((A + D) * (9007199254740993 / 9007199254740992) + 2 * eta)
      / 9007199254740992 + eta"
    "- X3 \<le> ((A + D) * (9007199254740993 / 9007199254740992) + 2 * eta)
      / 9007199254740992 + eta"
    by (simp_all add: abs_le_iff)
  have ra: "r - a = X3 + X1 + X2 + 6305039478318694 * d / 9007199254740992
      - a / 18014398509481984"
    unfolding X1_def X2_def X3_def d_def by (simp add: field_simps)
  have "\<bar>r - a\<bar> \<le> 3 * A / 9007199254740992 + 71 / 100 * D + 4 * eta"
    unfolding ra using x1 x2 x3 A D e by argo
  then show ?thesis unfolding r_def p_def q_def A_def by simp
qed

lemma smooth_error:
  assumes "\<bar>(case sm of None \<Rightarrow> a | Some v \<Rightarrow> v) - a\<bar> \<le> D"
  shows "\<bar>smooth a sm - a\<bar> \<le> 3 * \<bar>a\<bar> / 2 ^ 53 + 71 / 100 * D + 4 * eta"
  unfolding smooth_eq by (rule blend_error [OF assms])

lemma smooth_first_error: "\<bar>smooth a None - a\<bar> \<le> 3 * \<bar>a\<bar> / 2 ^ 53 + 4 * eta"
  using smooth_error [where sm = None and a = a and D = 0] by simp

lemma smooth_stays_close:
  assumes "\<bar>v - a\<bar> \<le> \<bar>a\<bar> / 2 ^ 49 + 16 * eta"
  shows "\<bar>smooth a (Some v) - a\<bar> \<le> \<bar>a\<bar> / 2 ^ 49 + 16 * eta"
proof -
  have h: "\<bar>(case Some v of None \<Rightarrow> a | Some v \<Rightarrow> v) - a\<bar> \<le> \<bar>a\<bar> / 2 ^ 49 + 16 * eta"
    using assms by simp
  have "\<bar>smooth a (Some v) - a\<bar>
      \<le> 3 * \<bar>a\<bar> / 2 ^ 53 + 71 / 100 * (\<bar>a\<bar> / 2 ^ 49 + 16 * eta) + 4 * eta"
    by (rule smooth_error [OF h])
  also have "\<dots> \<le> \<bar>a\<bar> / 2 ^ 49 + 16 * eta"
    using eta_pos by simp argo
  finally show ?thesis .
qed

lemma smooth_all_close:
  assumes "\<bar>v - a\<bar> \<le> \<bar>a\<bar> / 2 ^ 49 + 16 * eta"
  shows "\<exists>w. smooth_all (replicate n a) (Some v) = Some w \<and>
           \<bar>w - a\<bar> \<le> \<bar>a\<bar> / 2 ^ 49 + 16 * eta"
  using assms
proof (induction n arbitrary: v)
  case 0
  then show ?case by simp
next
  case (Suc n)
  from Suc.IH [OF smooth_stays_close [OF Suc.prems]] show ?case by simp
qed

lemma smooth_constant:
  assumes "0 < n"
  shows "\<exists>w. smooth_all (replicate n a) None = Some w \<and>
           \<bar>w - a\<bar> \<le> \<bar>a\<bar> / 2 ^ 49 + 16 * eta"
proof -
  from assms obtain m where n: "n = Suc m" by (cases n) auto
  have "\<bar>smooth a None - a\<bar> \<le> \<bar>a\<bar> / 2 ^ 49 + 16 * eta"
    using smooth_first_error [of a] eta_pos by simp
  from smooth_all_close [OF this, of m] show ?thesis by (simp add: n)
qed

lemma smooth_128_first: "smooth 128 None = 128"
proof -
  have a: "fl64 (5404319552844595 / 2 ^ 54 * 128) = 5404319552844595 / 2 ^ 47"
    by (subst fl64_eval [where k = 47]) (simp_all add: emin_def round_even_def Let_def)
  have b: "fl64 (6305039478318694 / 2 ^ 53 * 128) = 6305039478318694 / 2 ^ 46"
    by (subst fl64_eval [where k = 46]) (simp_all add: emin_def round_even_def Let_def)
  have c: "fl64 (5404319552844595 / 2 ^ 47 + 6305039478318694 / 2 ^ 46) = 128"
    by (subst fl64_eval [where k = 46]) (simp_all add: emin_def round_even_def Let_def)
  show ?thesis unfolding smooth_eq option.case a b c ..
qed

lemma smooth_0_after_128: "smooth 0 (Some 128) = 3152519739159347 / 35184372088832"
proof -
  have b: "fl64 (6305039478318694 / 2 ^ 53 * 128) = 6305039478318694 / 2 ^ 46"
    by (subst fl64_eval [where k = 46]) (simp_all add: emin_def round_even_def Let_def)
  have c: "fl64 (6305039478318694 / 2 ^ 46) = 6305039478318694 / 2 ^ 46"
    by (subst fl64_eval [where k = 46]) (simp_all add: emin_def round_even_def Let_def)
  have "smooth 0 (Some 128) = fl64 (fl64 (6305039478318694 / 2 ^ 53 * 128))"
    unfolding smooth_eq by simp
  then show ?thesis unfolding b c by simp
qed

lemma smooth_0_again:
  "smooth 0 (Some (3152519739159347 / 35184372088832)) = 8827055269646171 / 140737488355328"
proof -
  have b: "fl64 (6305039478318694 / 2 ^ 53 * (6305039478318694 / 2 ^ 46)) = 8827055269646171 / 2 ^ 47"
    by (subst fl64_eval [where k = 47]) (simp_all add: emin_def round_even_def Let_def)
  have c: "fl64 (8827055269646171 / 2 ^ 47) = 8827055269646171 / 2 ^ 47"
    by (subst fl64_eval [where k = 47]) (simp_all add: emin_def round_even_def Let_def)
  have e: "(3152519739159347 / 35184372088832 :: real) = 6305039478318694 / 2 ^ 46"
    by simp
  have "smooth 0 (Some (3152519739159347 / 35184372088832)) =
      fl64 (fl64 (6305039478318694 / 2 ^ 53 * (6305039478318694 / 2 ^ 46)))"
    unfolding smooth_eq e by simp
  then show ?thesis unfolding b c by simp
qed

lemma smooth_111:
  "smooth 111 None = 7810930603720703 / 70368744177664"
  "smooth 111 (Some (7810930603720703 / 70368744177664)) = 7810930603720703 / 70368744177664"
proof -
  have a: "fl64 (5404319552844595 / 2 ^ 54 * 111) = 4686558362232422 / 2 ^ 47"
    by (subst fl64_eval [where k = 47]) (simp_all add: emin_def round_even_def Let_def)
  have b: "fl64 (6305039478318694 / 2 ^ 53 * 111) = 5467651422604492 / 2 ^ 46"
    by (subst fl64_eval [where k = 46]) (simp_all add: emin_def round_even_def Let_def)
  have b': "fl64 (6305039478318694 / 2 ^ 53 * (7810930603720703 / 70368744177664))
      = 5467651422604492 / 2 ^ 46"
    by (subst fl64_eval [where k = 46]) (simp_all add: emin_def round_even_def Let_def)
  have c: "fl64 (4686558362232422 / 2 ^ 47 + 5467651422604492 / 2 ^ 46)
      = 7810930603720703 / 70368744177664"
    by (subst fl64_eval [where k = 46]) (simp_all add: emin_def round_even_def Let_def)
  show "smooth 111 None = 7810930603720703 / 70368744177664"
    unfolding smooth_eq option.case a b c ..
  show "smooth 111 (Some (7810930603720703 / 70368744177664)) = 7810930603720703 / 70368744177664"
    unfolding smooth_eq option.case a b' c ..
qed

section \<open>Steps of the rep state machine\<close>

lemma repStep_BENT:
  "state s = BENT \<Longrightarrow> repStep angle nowSec s =
     (if angle \<le> 110 then Inr s
      else Inr (s\<lparr>state := EXTENDING, repStartTime := Some nowSec,
                  extendStartTime := Some nowSec, maxAngleThisRep := Some angle,
                  angleDisplay := Some Dashes,
                  angleFeedback := Some \<lparr>text_of = Extending, level_of = Ok\<rparr>,
                  speedFeedback := Some \<lparr>text_of = Empty, level_of = Ok\<rparr>\<rparr>))"
  by (simp add: repStep_def BENT_THRESHOLD_def setAngleFeedback_def setSpeedFeedback_def)

lemma repStep_EXTENDING:
  "state s = EXTENDING \<Longrightarrow> maxAngleThisRep s = Some m \<Longrightarrow> repStep angle nowSec s =
     (if angle < fsub (max m angle) 1 then
        Inr (s\<lparr>state := FLEXING, flexStartTime := Some nowSec,
               maxAngleThisRep := Some (max m angle),
               angleDisplay := Some (MaxAngle (max m angle)),
               angleFeedback := Some
                 (if 160 \<le> max m angle then \<lparr>text_of = GreatExtension, level_of = Ok\<rparr>
                  else if 145 \<le> max m angle then \<lparr>text_of = AlmostStraight, level_of = Warn\<rparr>
                  else \<lparr>text_of = TooShallow, level_of = Bad\<rparr>)\<rparr>)
      else Inr (s\<lparr>maxAngleThisRep := Some (max m angle)\<rparr>))"
  by (simp add: repStep_def Let_def to_number_def thresholds setAngleFeedback_def max_def)

lemma repStep_EXTENDING_any:
  assumes "state s = EXTENDING"
  shows "repStep angle nowSec s =
     (let mx = (if to_number (maxAngleThisRep s) < angle then Some angle else maxAngleThisRep s)
      in if angle < fsub (to_number mx) 1 then
           (case mx of
              None \<Rightarrow> Inl TypeError
            | Some m \<Rightarrow>
                Inr (s\<lparr>state := FLEXING, flexStartTime := Some nowSec,
                       maxAngleThisRep := Some m, angleDisplay := Some (MaxAngle m),
                       angleFeedback := Some
                         \<lparr>text_of = (if 160 \<le> m then GreatExtension
                                     else if 145 \<le> m then AlmostStraight else TooShallow),
                          level_of = spec_tier m\<rparr>\<rparr>))
         else Inr (s\<lparr>maxAngleThisRep := mx\<rparr>))"
  using assms
  by (simp add: repStep_def Let_def thresholds setAngleFeedback_def spec_tier_def
      split: option.split)

lemma repStep_FLEXING:
  "state s = FLEXING \<Longrightarrow> repStep angle nowSec s =
     (if angle \<le> 110 then
        Inr (s\<lparr>state := BENT, repCount := repCount s + 1, repInfo := Some (repCount s + 1),
               repStartTime := None, extendStartTime := None, flexStartTime := None,
               maxAngleThisRep := None,
               speedFeedback := Some
                 (if fsub nowSec (or_else (repStartTime s) nowSec) < 5
                     \<or> fsub (or_else (flexStartTime s) nowSec)
                          (or_else (extendStartTime s) (or_else (repStartTime s) nowSec)) < 2
                     \<or> fsub nowSec (or_else (flexStartTime s) nowSec) < 2
                  then \<lparr>text_of = RepTooFast (repCount s + 1), level_of = Bad\<rparr>
                  else \<lparr>text_of = RepGoodTempo (repCount s + 1), level_of = Ok\<rparr>),
               angleFeedback := Some
                 (if 160 \<le> to_number (maxAngleThisRep s)
                  then \<lparr>text_of = RepExcellent (repCount s + 1), level_of = Ok\<rparr>
                  else if 145 \<le> to_number (maxAngleThisRep s)
                  then \<lparr>text_of = RepGood (repCount s + 1), level_of = Warn\<rparr>
                  else \<lparr>text_of = RepExtendMore (repCount s + 1), level_of = Bad\<rparr>)\<rparr>)
      else Inr s)"
  by (simp add: repStep_def Let_def thresholds BENT_THRESHOLD_def MIN_REP_TIME_def
      MIN_PHASE_TIME_def setAngleFeedback_def setSpeedFeedback_def)

lemma repStep_repCount:
  assumes "repStep angle nowSec s = Inr s'"
  shows "repCount s' = (if state s = FLEXING \<and> state s' = BENT then repCount s + 1 else repCount s)"
proof (cases "state s")
  case BENT
  with assms show ?thesis by (auto simp: repStep_BENT split: if_splits)
next
  case EXTENDING
  with assms show ?thesis
    by (auto simp: repStep_def Let_def setAngleFeedback_def split: if_splits option.splits)
next
  case FLEXING
  with assms show ?thesis by (auto simp: repStep_FLEXING split: if_splits)
qed

lemma repStep_legal:
  assumes "repStep angle nowSec s = Inr s'"
  shows "(state s = BENT \<longrightarrow> state s' = BENT \<or> state s' = EXTENDING) \<and>
         (state s = EXTENDING \<longrightarrow> state s' = EXTENDING \<or> state s' = FLEXING) \<and>
         (state s = FLEXING \<longrightarrow> state s' = FLEXING \<or> state s' = BENT)"
proof (cases "state s")
  case BENT
  with assms show ?thesis by (auto simp: repStep_BENT split: if_splits)
next
  case EXTENDING
  with assms show ?thesis
    by (auto simp: repStep_def Let_def setAngleFeedback_def split: if_splits option.splits)
next
  case FLEXING
  with assms show ?thesis by (auto simp: repStep_FLEXING split: if_splits)
qed

lemma repStep_fields_ok:
  assumes "repStep angle nowSec s = Inr s'" and "fields_ok s"
  shows "fields_ok s'"
proof (cases "state s")
  case BENT
  with assms show ?thesis by (auto simp: fields_ok_def repStep_BENT split: if_splits)
next
  case EXTENDING
  with assms obtain m where "maxAngleThisRep s = Some m" by (auto simp: fields_ok_def)
  with assms EXTENDING show ?thesis
    by (auto simp: fields_ok_def repStep_EXTENDING split: if_splits)
next
  case FLEXING
  with assms show ?thesis by (auto simp: fields_ok_def repStep_FLEXING split: if_splits)
qed

lemma repStep_times_nonzero:
  assumes "repStep angle nowSec s = Inr s'" and "times_nonzero s" and "nowSec \<noteq> 0"
  shows "times_nonzero s'"
proof (cases "state s")
  case BENT
  with assms show ?thesis by (auto simp: times_nonzero_def repStep_BENT split: if_splits)
next
  case EXTENDING
  with assms show ?thesis
    by (auto simp: times_nonzero_def repStep_def Let_def setAngleFeedback_def
        split: if_splits option.splits)
next
  case FLEXING
  with assms show ?thesis by (auto simp: times_nonzero_def repStep_FLEXING split: if_splits)
qed

lemma repStep_total:
  assumes "fields_ok s"
  shows "\<exists>s'. repStep angle nowSec s = Inr s'"
proof (cases "state s")
  case BENT
  then show ?thesis by (simp add: repStep_BENT)
next
  case EXTENDING
  with assms obtain m where "maxAngleThisRep s = Some m" by (auto simp: fields_ok_def)
  with EXTENDING show ?thesis by (simp add: repStep_EXTENDING)
next
  case FLEXING
  then show ?thesis by (simp add: repStep_FLEXING)
qed

lemma repStep_smoothedAngle:
  assumes "repStep angle nowSec s = Inr s'"
  shows "smoothedAngle s' = smoothedAngle s"
proof (cases "state s")
  case BENT
  with assms show ?thesis by (auto simp: repStep_BENT split: if_splits)
next
  case EXTENDING
  define mx where
    "mx = (if to_number (maxAngleThisRep s) < angle then Some angle else maxAngleThisRep s)"
  note R = repStep_EXTENDING_any [OF EXTENDING, of angle nowSec, unfolded Let_def, folded mx_def]
  show ?thesis
  proof (cases "angle < fsub (to_number mx) 1")
    case False
    with R assms show ?thesis by auto
  next
    case True
    with R assms show ?thesis by (cases mx) auto
  qed
next
  case FLEXING
  with assms show ?thesis by (auto simp: repStep_FLEXING split: if_splits)
qed

lemma repStep_to_FLEXING:
  assumes "repStep angle nowSec s = Inr s'" and "state s = EXTENDING" and "state s' = FLEXING"
  shows "\<exists>m tx. maxAngleThisRep s' = Some m \<and>
           angleFeedback s' = Some \<lparr>text_of = tx, level_of = spec_tier m\<rparr>"
proof -
  define mx where
    "mx = (if to_number (maxAngleThisRep s) < angle then Some angle else maxAngleThisRep s)"
  note R = repStep_EXTENDING_any [OF assms(2), of angle nowSec, unfolded Let_def, folded mx_def]
  show ?thesis
  proof (cases "angle < fsub (to_number mx) 1")
    case False
    with R assms(1) have "s' = s\<lparr>maxAngleThisRep := mx\<rparr>" by simp
    with assms(2,3) show ?thesis by simp
  next
    case True
    show ?thesis
    proof (cases mx)
      case None
      with R True assms(1) show ?thesis by simp
    next
      case (Some m)
      with R True assms(1) show ?thesis by auto
    qed
  qed
qed

lemma repStep_to_BENT:
  assumes "repStep angle nowSec s = Inr s'" and "state s = FLEXING" and "state s' = BENT"
    and "maxAngleThisRep s = Some m"
  shows "\<exists>tx. angleFeedback s' = Some \<lparr>text_of = tx, level_of = spec_tier m\<rparr>"
proof -
  note R = repStep_FLEXING [OF assms(2), of angle nowSec]
  have le: "angle \<le> 110"
  proof (rule ccontr)
    assume "\<not> angle \<le> 110"
    with R assms(1) have "s' = s" by simp
    with assms(2,3) show False by simp
  qed
  from R assms(1) le have "angleFeedback s' = Some
                 (if 160 \<le> to_number (maxAngleThisRep s)
                  then \<lparr>text_of = RepExcellent (repCount s + 1), level_of = Ok\<rparr>
                  else if 145 \<le> to_number (maxAngleThisRep s)
                  then \<lparr>text_of = RepGood (repCount s + 1), level_of = Warn\<rparr>
                  else \<lparr>text_of = RepExtendMore (repCount s + 1), level_of = Bad\<rparr>)"
    by auto
  then show ?thesis by (simp add: assms(4) to_number_def spec_tier_def)
qed

section \<open>Frames\<close>

lemma updateLogic_result:
  assumes "updateLogic angleOf p nowSec s = Inr s'"
  shows "(\<exists>lg d. s' = s\<lparr>lastGood := lg, angleDisplay := Some d\<rparr>) \<or>
         (\<exists>lg a. repStep (smooth a (smoothedAngle s)) nowSec
                   (s\<lparr>lastGood := lg, smoothedAngle := Some (smooth a (smoothedAngle s))\<rparr>) = Inr s')"
  using assms unfolding updateLogic_def Let_def
  by (auto split: prod.splits option.splits jsnum.splits)

lemma updateLogic_shape:
  "(\<exists>lg d. updateLogic angleOf p nowSec s = Inr (s\<lparr>lastGood := lg, angleDisplay := Some d\<rparr>)) \<or>
   (\<exists>lg a. updateLogic angleOf p nowSec s =
       repStep (smooth a (smoothedAngle s)) nowSec
         (s\<lparr>lastGood := lg, smoothedAngle := Some (smooth a (smoothedAngle s))\<rparr>))"
  unfolding updateLogic_def Let_def
  by (auto split: prod.splits option.splits jsnum.splits)

lemma updateLogic_moved:
  assumes "updateLogic angleOf p nowSec s = Inr s'" and "state s' \<noteq> state s"
  shows "\<exists>lg sm. repStep sm nowSec (s\<lparr>lastGood := lg, smoothedAngle := Some sm\<rparr>) = Inr s'"
  using updateLogic_result [OF assms(1)] assms(2) by auto

lemma updateLogic_sample:
  assumes "getStableKeypoint p RightHip nowSec minScore_default (lastGood s) = (Some h, lg1)"
    and "getStableKeypoint p RightKnee nowSec minScore_default lg1 = (Some k, lg2)"
    and "getStableKeypoint p RightAnkle nowSec minScore_default lg2 = (Some a, lg3)"
    and "angleOf h k a = Some (Num v)"
  shows "updateLogic angleOf p nowSec s =
     repStep (smooth v (smoothedAngle s)) nowSec
       (s\<lparr>lastGood := lg3, smoothedAngle := Some (smooth v (smoothedAngle s))\<rparr>)"
  unfolding updateLogic_def Let_def assms(1-3) prod.case by (simp add: assms(4))

lemma updateLogic_repCount:
  assumes "updateLogic angleOf p nowSec s = Inr s'"
  shows "repCount s' = (if state s = FLEXING \<and> state s' = BENT then repCount s + 1 else repCount s)"
  using updateLogic_result [OF assms]
proof (elim disjE exE)
  fix lg d assume "s' = s\<lparr>lastGood := lg, angleDisplay := Some d\<rparr>"
  then show ?thesis by (cases "state s") simp_all
next
  fix lg a
  assume "repStep (smooth a (smoothedAngle s)) nowSec
            (s\<lparr>lastGood := lg, smoothedAngle := Some (smooth a (smoothedAngle s))\<rparr>) = Inr s'"
  from repStep_repCount [OF this] show ?thesis by simp
qed

lemma updateLogic_legal:
  assumes "updateLogic angleOf p nowSec s = Inr s'"
  shows "(state s = BENT \<longrightarrow> state s' = BENT \<or> state s' = EXTENDING) \<and>
         (state s = EXTENDING \<longrightarrow> state s' = EXTENDING \<or> state s' = FLEXING) \<and>
         (state s = FLEXING \<longrightarrow> state s' = FLEXING \<or> state s' = BENT)"
  using updateLogic_result [OF assms]
proof (elim disjE exE)
  fix lg d assume "s' = s\<lparr>lastGood := lg, angleDisplay := Some d\<rparr>"
  then show ?thesis by simp
next
  fix lg a
  assume "repStep (smooth a (smoothedAngle s)) nowSec
            (s\<lparr>lastGood := lg, smoothedAngle := Some (smooth a (smoothedAngle s))\<rparr>) = Inr s'"
  from repStep_legal [OF this] show ?thesis by simp
qed

lemma fields_ok_frame [simp]:
  "fields_ok (s\<lparr>lastGood := lg, angleDisplay := d\<rparr>) = fields_ok s"
  "fields_ok (s\<lparr>lastGood := lg, smoothedAngle := sm\<rparr>) = fields_ok s"
  by (simp_all add: fields_ok_def)

lemma times_nonzero_frame [simp]:
  "times_nonzero (s\<lparr>lastGood := lg, angleDisplay := d\<rparr>) = times_nonzero s"
  "times_nonzero (s\<lparr>lastGood := lg, smoothedAngle := sm\<rparr>) = times_nonzero s"
  by (simp_all add: times_nonzero_def)

lemma updateLogic_total:
  assumes "fields_ok s"
  shows "\<exists>s'. updateLogic angleOf p nowSec s = Inr s'"
  using updateLogic_shape [of angleOf p nowSec s]
proof (elim disjE exE)
  fix lg d
  assume "updateLogic angleOf p nowSec s = Inr (s\<lparr>lastGood := lg, angleDisplay := Some d\<rparr>)"
  then show ?thesis by simp
next
  fix lg a
  assume u: "updateLogic angleOf p nowSec s =
       repStep (smooth a (smoothedAngle s)) nowSec
         (s\<lparr>lastGood := lg, smoothedAngle := Some (smooth a (smoothedAngle s))\<rparr>)"
  show ?thesis unfolding u by (rule repStep_total) (simp add: assms)
qed

lemma updateLogic_fields_ok:
  assumes "updateLogic angleOf p nowSec s = Inr s'" and "fields_ok s"
  shows "fields_ok s'"
  using updateLogic_shape [of angleOf p nowSec s]
proof (elim disjE exE)
  fix lg d
  assume "updateLogic angleOf p nowSec s = Inr (s\<lparr>lastGood := lg, angleDisplay := Some d\<rparr>)"
  with assms show ?thesis by auto
next
  fix lg a
  assume "updateLogic angleOf p nowSec s =
       repStep (smooth a (smoothedAngle s)) nowSec
         (s\<lparr>lastGood := lg, smoothedAngle := Some (smooth a (smoothedAngle s))\<rparr>)"
  with assms(1) have "repStep (smooth a (smoothedAngle s)) nowSec
         (s\<lparr>lastGood := lg, smoothedAngle := Some (smooth a (smoothedAngle s))\<rparr>) = Inr s'"
    by simp
  from repStep_fields_ok [OF this] assms(2) show ?thesis by simp
qed

lemma updateLogic_times_nonzero:
  assumes "updateLogic angleOf p nowSec s = Inr s'" and "times_nonzero s" and "nowSec \<noteq> 0"
  shows "times_nonzero s'"
  using updateLogic_shape [of angleOf p nowSec s]
proof (elim disjE exE)
  fix lg d
  assume "updateLogic angleOf p nowSec s = Inr (s\<lparr>lastGood := lg, angleDisplay := Some d\<rparr>)"
  with assms show ?thesis by auto
next
  fix lg a
  assume "updateLogic angleOf p nowSec s =
       repStep (smooth a (smoothedAngle s)) nowSec
         (s\<lparr>lastGood := lg, smoothedAngle := Some (smooth a (smoothedAngle s))\<rparr>)"
  with assms(1) have "repStep (smooth a (smoothedAngle s)) nowSec
         (s\<lparr>lastGood := lg, smoothedAngle := Some (smooth a (smoothedAngle s))\<rparr>) = Inr s'"
    by simp
  from repStep_times_nonzero [OF this _ assms(3)] assms(2) show ?thesis by simp
qed

section \<open>Runs\<close>

lemma run_repCount:
  "run angleOf frames s = Inr s' \<Longrightarrow>
     repCount s' = repCount s + cycles (state s) (trace angleOf frames s)"
proof (induction frames arbitrary: s)
  case Nil
  then show ?case by simp
next
  case (Cons fr frames)
  obtain p nowSec where fr: "fr = (p, nowSec)" by (cases fr)
  from Cons.prems obtain s1 where s1: "updateLogic angleOf p nowSec s = Inr s1"
    and r: "run angleOf frames s1 = Inr s'"
    by (auto simp: fr split: sum.splits)
  from Cons.IH [OF r] have ih: "repCount s' = repCount s1 + cycles (state s1) (trace angleOf frames s1)" .
  from updateLogic_repCount [OF s1] updateLogic_legal [OF s1] ih
  show ?case
    by (cases "state s"; cases "state s1") (simp_all add: fr s1)
qed

lemma run_invariants:
  assumes "fields_ok s"
  shows "\<exists>s'. run angleOf frames s = Inr s' \<and> fields_ok s' \<and>
           (times_nonzero s \<and> (\<forall>fr\<in>set frames. snd fr \<noteq> 0) \<longrightarrow> times_nonzero s')"
  using assms
proof (induction frames arbitrary: s)
  case Nil
  then show ?case by simp
next
  case (Cons fr frames)
  obtain p nowSec where fr: "fr = (p, nowSec)" by (cases fr)
  from updateLogic_total [OF Cons.prems] obtain s1
    where s1: "updateLogic angleOf p nowSec s = Inr s1" by blast
  from updateLogic_fields_ok [OF s1 Cons.prems] have ok1: "fields_ok s1" .
  from Cons.IH [OF ok1] obtain s' where r: "run angleOf frames s1 = Inr s'"
    and ok: "fields_ok s'"
    and nz: "times_nonzero s1 \<and> (\<forall>fr\<in>set frames. snd fr \<noteq> 0) \<longrightarrow> times_nonzero s'"
    by blast
  have "times_nonzero s \<and> (\<forall>fr\<in>set (fr # frames). snd fr \<noteq> 0) \<longrightarrow> times_nonzero s'"
    using nz updateLogic_times_nonzero [OF s1] by (auto simp: fr)
  with r ok show ?case by (simp add: fr s1)
qed

lemma initial_ok: "fields_ok initial" "times_nonzero initial"
  by (simp_all add: fields_ok_def times_nonzero_def initial_def)

section \<open>Keypoint lookup\<close>

lemma find_unique:
  assumes "kp \<in> set kps" and "P kp" and "\<forall>k\<in>set kps. P k \<longrightarrow> k = kp"
  shows "find P kps = Some kp"
  using assms
proof (induction kps)
  case Nil
  then show ?case by simp
next
  case (Cons a kps)
  show ?case
  proof (cases "P a")
    case True
    with Cons.prems(3) have "a = kp" by simp
    with True show ?thesis by simp
  next
    case False
    with Cons.prems(1,2) have "kp \<in> set kps" by auto
    moreover from Cons.prems(3) have "\<forall>k\<in>set kps. P k \<longrightarrow> k = kp" by simp
    ultimately have "find P kps = Some kp" using Cons.IH Cons.prems(2) by blast
    with False show ?thesis by simp
  qed
qed

lemma find_some: "find P kps = Some kp \<Longrightarrow> kp \<in> set kps \<and> P kp"
  by (induction kps) (auto split: if_splits)

lemma getKeypoint_unique:
  assumes "kp \<in> set (pose_keypoints p)" and "name kp = Some n" and "minScore \<le> score kp"
    and "\<forall>k\<in>set (pose_keypoints p). name k = Some n \<longrightarrow> k = kp"
  shows "getKeypoint p n minScore = Some kp"
proof (cases p)
  case None
  with assms(1) show ?thesis by (simp add: pose_keypoints_def)
next
  case (Some ps)
  show ?thesis
  proof (cases "keypoints ps")
    case None
    with Some assms(1) show ?thesis by (simp add: pose_keypoints_def)
  next
    case (Some kps)
    with \<open>p = Some ps\<close> have k: "pose_keypoints p = kps" by (simp add: pose_keypoints_def)
    have "find (\<lambda>k. name k = Some n) kps = Some kp"
    proof (rule find_unique)
      show "kp \<in> set kps" using assms(1) unfolding k .
      show "name kp = Some n" by fact
      show "\<forall>k\<in>set kps. name k = Some n \<longrightarrow> k = kp" using assms(4) unfolding k .
    qed
    with assms(3) Some \<open>p = Some ps\<close> show ?thesis by (simp add: getKeypoint_def)
  qed
qed

lemma getKeypoint_absent:
  assumes "\<not> (\<exists>k\<in>set (pose_keypoints p). name k = Some n \<and> minScore \<le> score k)"
  shows "getKeypoint p n minScore = None"
proof (cases p)
  case None
  then show ?thesis by (simp add: getKeypoint_def)
next
  case (Some ps)
  show ?thesis
  proof (cases "keypoints ps")
    case None
    with Some show ?thesis by (simp add: getKeypoint_def)
  next
    case (Some kps)
    with \<open>p = Some ps\<close> have k: "pose_keypoints p = kps" by (simp add: pose_keypoints_def)
    show ?thesis
    proof (cases "find (\<lambda>k. name k = Some n) kps")
      case None
      with Some \<open>p = Some ps\<close> show ?thesis by (simp add: getKeypoint_def)
    next
      case (Some kp)
      from find_some [OF this] have "kp \<in> set kps" "name kp = Some n"
        by simp_all
      with assms have "score kp < minScore" unfolding k by auto
      with Some \<open>keypoints ps = Some kps\<close> \<open>p = Some ps\<close> show ?thesis
        by (simp add: getKeypoint_def)
    qed
  qed
qed

section \<open>The example session, evaluated\<close>

lemma getKeypoint_example:
  "getKeypoint (example_pose v) ''right_hip'' minScore_default =
     Some \<lparr>name = Some ''right_hip'', kp_x = v, kp_y = 0, score = 1\<rparr>"
  "getKeypoint (example_pose v) ''right_knee'' minScore_default =
     Some \<lparr>name = Some ''right_knee'', kp_x = 0, kp_y = 0, score = 1\<rparr>"
  "getKeypoint (example_pose v) ''right_ankle'' minScore_default =
     Some \<lparr>name = Some ''right_ankle'', kp_x = 0, kp_y = 1, score = 1\<rparr>"
  by (simp_all add: getKeypoint_def example_pose_def minScore_default_def three_tenths)

lemma updateLogic_example:
  "updateLogic example_angle (example_pose v) nowSec s =
     repStep (smooth v (smoothedAngle s)) nowSec
       (s\<lparr>lastGood :=
example_cache v nowSec,
          smoothedAngle := Some (smooth v (smoothedAngle s))\<rparr>)"
  by (cases "lastGood s")
     (simp add: updateLogic_def getStableKeypoint_def getKeypoint_example example_angle_def Let_def
        example_cache_def)

lemma example_step1:
  "updateLogic example_angle (example_pose 128) 1 initial = Inr example_extending"
  unfolding updateLogic_example
  by (simp add: initial_def smooth_128_first repStep_BENT example_extending_def)

lemma example_step2:
  "updateLogic example_angle (example_pose 0) 4 example_extending = Inr example_flexing"
  unfolding updateLogic_example
  by (simp add: example_extending_def smooth_0_after_128 repStep_EXTENDING [where m = 128]
      fsub_def fl64_numeral example_flexing_def)

lemma example_step3:
  "updateLogic example_angle (example_pose 0) 7 example_flexing = Inr example_done"
  unfolding updateLogic_example
  by (simp add: example_flexing_def smooth_0_again repStep_FLEXING or_else_def to_number_def
      fsub_def fl64_numeral example_done_def)

lemma example_step3_early:
  "updateLogic example_angle (example_pose 0) 4 example_flexing =
     Inr (example_done\<lparr>lastGood := example_cache 0 4,
            speedFeedback := Some \<lparr>text_of = RepTooFast 1, level_of = Bad\<rparr>\<rparr>)"
  unfolding updateLogic_example
  by (simp add: example_flexing_def smooth_0_again repStep_FLEXING or_else_def to_number_def
      fsub_def fl64_numeral example_done_def)

lemma example_run:
  "run example_angle [(example_pose 128, 1), (example_pose 0, 4)] initial = Inr example_flexing"
  "run example_angle example_frames initial = Inr example_done"
  "trace example_angle example_frames initial = [EXTENDING, FLEXING, BENT]"
  by (simp_all add: example_frames_def example_step1 example_step2 example_step3)
     (simp_all add: example_extending_def example_flexing_def example_done_def)

section \<open>Rounding is monotone\<close>
















lemma fsub_self [simp]: "fsub a a = 0"
  by (simp add: fsub_def)


section \<open>The constant pi\<close>

lemma arctan_sum_Suc:
  "arctan_sum x (Suc n) = arctan_sum x n + (- 1) ^ n * (1 / real (n * 2 + 1) * x ^ (n * 2 + 1))"
  by (simp add: arctan_sum_def)

lemma arctan_sum_0: "arctan_sum x 0 = 0"
  by (simp add: arctan_sum_def)







section \<open>The knee angle\<close>




















section \<open>The knee angle at three inputs\<close>














section \<open>The rep state machine\<close>

text \<open>
  C1. For every smoothed angle fed to the state machine: from BENT it goes to EXTENDING
  exactly when the angle is above 110 (at 110 it stays BENT); from EXTENDING it goes to
  FLEXING exactly when the angle is below \<^verbatim>\<open>maxAngleThisRep - 1.0\<close>, where
  \<^verbatim>\<open>maxAngleThisRep\<close> has taken the sample in (for angles of ordinary size the
  maximum before the sample decides the same); from FLEXING it returns to BENT and
  counts the rep exactly when the angle is at most 110.
\<close>

theorem rep_transitions:
  "(state s = BENT \<longrightarrow>
      (\<exists>s'. repStep angle nowSec s = Inr s' \<and>
         (state s' = EXTENDING \<longleftrightarrow> 110 < angle) \<and> (state s' = BENT \<longleftrightarrow> angle \<le> 110))) \<and>
   (state s = EXTENDING \<and> maxAngleThisRep s = Some m \<longrightarrow>
      (\<exists>s'. repStep angle nowSec s = Inr s' \<and> maxAngleThisRep s' = Some (max m angle) \<and>
         (state s' = FLEXING \<longleftrightarrow> angle < fsub (max m angle) 1) \<and>
         (state s' = EXTENDING \<longleftrightarrow> \<not> angle < fsub (max m angle) 1) \<and>
         (\<bar>m\<bar> \<le> 2 ^ 52 \<and> \<bar>angle\<bar> \<le> 2 ^ 52 \<longrightarrow>
            (state s' = FLEXING \<longleftrightarrow> angle < fsub m 1)))) \<and>
   (state s = FLEXING \<longrightarrow>
      (\<exists>s'. repStep angle nowSec s = Inr s' \<and>
         (state s' = BENT \<longleftrightarrow> angle \<le> 110) \<and> (state s' = FLEXING \<longleftrightarrow> 110 < angle) \<and>
         (repCount s' = repCount s + 1 \<longleftrightarrow> angle \<le> 110)))"
proof (intro conjI impI)
  assume "state s = BENT"
  then show "\<exists>s'. repStep angle nowSec s = Inr s' \<and>
         (state s' = EXTENDING \<longleftrightarrow> 110 < angle) \<and> (state s' = BENT \<longleftrightarrow> angle \<le> 110)"
    by (simp add: repStep_BENT)
next
  assume a: "state s = EXTENDING \<and> maxAngleThisRep s = Some m"
  have pre: "\<bar>m\<bar> \<le> 2 ^ 52 \<and> \<bar>angle\<bar> \<le> 2 ^ 52 \<longrightarrow>
      (angle < fsub (max m angle) 1 \<longleftrightarrow> angle < fsub m 1)"
    using fsub_one_le [of m] fsub_one_le [of angle] by (auto simp: max_def)
  from a show "\<exists>s'. repStep angle nowSec s = Inr s' \<and> maxAngleThisRep s' = Some (max m angle) \<and>
         (state s' = FLEXING \<longleftrightarrow> angle < fsub (max m angle) 1) \<and>
         (state s' = EXTENDING \<longleftrightarrow> \<not> angle < fsub (max m angle) 1) \<and>
         (\<bar>m\<bar> \<le> 2 ^ 52 \<and> \<bar>angle\<bar> \<le> 2 ^ 52 \<longrightarrow>
            (state s' = FLEXING \<longleftrightarrow> angle < fsub m 1))"
    using pre by (auto simp: repStep_EXTENDING)
next
  assume "state s = FLEXING"
  then show "\<exists>s'. repStep angle nowSec s = Inr s' \<and>
         (state s' = BENT \<longleftrightarrow> angle \<le> 110) \<and> (state s' = FLEXING \<longleftrightarrow> 110 < angle) \<and>
         (repCount s' = repCount s + 1 \<longleftrightarrow> angle \<le> 110)"
    by (simp add: repStep_FLEXING)
qed

theorem rep_transitions_witness:
  "state initial = BENT \<and>
   (\<exists>s'. repStep 110 1 initial = Inr s' \<and> state s' = BENT) \<and>
   (\<exists>s'. repStep 111 1 initial = Inr s' \<and> state s' = EXTENDING) \<and>
   (\<exists>s'. repStep 165 2 (initial\<lparr>state := EXTENDING, maxAngleThisRep := Some 168\<rparr>) = Inr s'
      \<and> state s' = FLEXING \<and> maxAngleThisRep s' = Some 168) \<and>
   (\<exists>s'. repStep 167 2 (initial\<lparr>state := EXTENDING, maxAngleThisRep := Some 168\<rparr>) = Inr s'
      \<and> state s' = EXTENDING) \<and>
   (\<exists>s'. repStep 110 3 (initial\<lparr>state := FLEXING\<rparr>) = Inr s' \<and> state s' = BENT
      \<and> repCount s' = 1)"
  using rep_transitions [of initial 110 1] rep_transitions [of initial 111 1]
    rep_transitions [of "initial\<lparr>state := EXTENDING, maxAngleThisRep := Some 168\<rparr>" 165 2 168]
    rep_transitions [of "initial\<lparr>state := EXTENDING, maxAngleThisRep := Some 168\<rparr>" 167 2 168]
    rep_transitions [of "initial\<lparr>state := FLEXING\<rparr>" 110 3]
  by (simp add: initial_def fsub_def fl64_numeral) blast

text \<open>
  C2. The rep counter starts at 0. No frame decreases it, and a frame changes it only by
  adding 1, which it does exactly when the frame takes the machine from FLEXING back
  to BENT; the feedback setters leave it alone. After any run from the initial session
  it equals the number of completed cycles BENT, EXTENDING, FLEXING, BENT of the run.
\<close>

theorem rep_counter:
  "repCount initial = 0 \<and>
   repCount (setAngleFeedback tx lv s) = repCount s \<and>
   repCount (setSpeedFeedback tx lv s) = repCount s \<and>
   (updateLogic angleOf p nowSec s = Inr s' \<longrightarrow>
      repCount s \<le> repCount s' \<and>
      repCount s' = (if state s = FLEXING \<and> state s' = BENT then repCount s + 1 else repCount s)) \<and>
   (run angleOf frames initial = Inr s'' \<longrightarrow>
      repCount s'' = cycles BENT (trace angleOf frames initial))"
proof -
  have "repCount s'' = cycles BENT (trace angleOf frames initial)"
    if "run angleOf frames initial = Inr s''"
    using run_repCount [OF that] by (simp add: initial_def)
  moreover have "repCount s \<le> repCount s' \<and>
      repCount s' = (if state s = FLEXING \<and> state s' = BENT then repCount s + 1 else repCount s)"
    if "updateLogic angleOf p nowSec s = Inr s'"
    using updateLogic_repCount [OF that] by simp
  ultimately show ?thesis
    by (simp add: initial_def setAngleFeedback_def setSpeedFeedback_def)
qed

theorem rep_counter_witness:
  "updateLogic example_angle (example_pose 0) 7 example_flexing = Inr example_done \<and>
   state example_flexing = FLEXING \<and> state example_done = BENT \<and>
   repCount example_done = repCount example_flexing + 1 \<and>
   run example_angle example_frames initial = Inr example_done \<and>
   repCount example_done = cycles BENT (trace example_angle example_frames initial) \<and>
   repCount example_done = 1"
  using rep_counter [of Empty Ok example_flexing example_angle "example_pose 0" 7 example_done
      example_frames example_done] example_step3 example_run(2)
  by (simp add: example_flexing_def example_done_def)

section \<open>Feedback at the transitions\<close>

text \<open>
  C3. At every step from EXTENDING to FLEXING, and again at every completion of a rep, the
  level of the angle feedback is the tier of \<^verbatim>\<open>maxAngleThisRep\<close>: good exactly from
  160 degrees, warning exactly from 145 and below 160, bad exactly below 145; 150 degrees
  gives a warning.
\<close>

theorem extension_quality:
  "(updateLogic angleOf p nowSec s = Inr s' \<and> state s = EXTENDING \<and> state s' = FLEXING \<longrightarrow>
      (\<exists>m tx. maxAngleThisRep s' = Some m \<and>
         angleFeedback s' = Some \<lparr>text_of = tx, level_of = spec_tier m\<rparr>)) \<and>
   (updateLogic angleOf p nowSec s = Inr s' \<and> state s = FLEXING \<and> state s' = BENT \<and>
      maxAngleThisRep s = Some m \<longrightarrow>
      (\<exists>tx. angleFeedback s' = Some \<lparr>text_of = tx, level_of = spec_tier m\<rparr>)) \<and>
   (spec_tier m = Ok \<longleftrightarrow> 160 \<le> m) \<and>
   (spec_tier m = Warn \<longleftrightarrow> 145 \<le> m \<and> m < 160) \<and>
   (spec_tier m = Bad \<longleftrightarrow> m < 145) \<and>
   spec_tier 150 = Warn"
proof (intro conjI impI)
  assume a: "updateLogic angleOf p nowSec s = Inr s' \<and> state s = EXTENDING \<and> state s' = FLEXING"
  then obtain lg sm
    where "repStep sm nowSec (s\<lparr>lastGood := lg, smoothedAngle := Some sm\<rparr>) = Inr s'"
    using updateLogic_moved [of angleOf p nowSec s s'] by auto
  from repStep_to_FLEXING [OF this] a
  show "\<exists>m tx. maxAngleThisRep s' = Some m \<and>
         angleFeedback s' = Some \<lparr>text_of = tx, level_of = spec_tier m\<rparr>"
    by simp
next
  assume a: "updateLogic angleOf p nowSec s = Inr s' \<and> state s = FLEXING \<and> state s' = BENT \<and>
      maxAngleThisRep s = Some m"
  then obtain lg sm
    where "repStep sm nowSec (s\<lparr>lastGood := lg, smoothedAngle := Some sm\<rparr>) = Inr s'"
    using updateLogic_moved [of angleOf p nowSec s s'] by auto
  from repStep_to_BENT [OF this, of m] a
  show "\<exists>tx. angleFeedback s' = Some \<lparr>text_of = tx, level_of = spec_tier m\<rparr>"
    by simp
qed (auto simp: spec_tier_def)

theorem extension_quality_witness:
  "updateLogic example_angle (example_pose 0) 4 example_extending = Inr example_flexing \<and>
   state example_extending = EXTENDING \<and> state example_flexing = FLEXING \<and>
   maxAngleThisRep example_flexing = Some 128 \<and>
   angleFeedback example_flexing = Some \<lparr>text_of = TooShallow, level_of = Bad\<rparr> \<and>
   updateLogic example_angle (example_pose 0) 7 (example_flexing\<lparr>maxAngleThisRep := Some 150\<rparr>) =
     Inr (example_done\<lparr>angleFeedback := Some \<lparr>text_of = RepGood 1, level_of = Warn\<rparr>,
                       angleDisplay := Some (MaxAngle 128)\<rparr>) \<and>
   spec_tier 150 = Warn \<and> spec_tier 128 = Bad"
  using extension_quality [of example_angle "example_pose 0" 4 example_extending example_flexing 128]
    extension_quality [of example_angle "example_pose 0" 7
      "example_flexing\<lparr>maxAngleThisRep := Some 150\<rparr>"
      "example_done\<lparr>angleFeedback := Some \<lparr>text_of = RepGood 1, level_of = Warn\<rparr>,
                       angleDisplay := Some (MaxAngle 128)\<rparr>" 150]
    example_step2 example_step3
  by (simp add: example_flexing_def example_done_def example_extending_def updateLogic_example
      smooth_0_again repStep_FLEXING or_else_def to_number_def fsub_def fl64_numeral)

text \<open>
  C4. When a frame completes a rep (the machine, reached by frames whose times are not 0,
  goes from FLEXING to BENT), the speed feedback is "too fast", at the bad level,
  exactly when the total time \<^verbatim>\<open>repEnd - repStart\<close> is below 5 or the extension time
  \<^verbatim>\<open>flexStart - extendStart\<close> is below 2 or the flexion time
  \<^verbatim>\<open>repEnd - flexStart\<close> is below 2, and "good tempo", at the ok level, otherwise. A
  rep whose total time is 3 seconds is too fast whatever its phases.
\<close>

theorem tempo_classification:
  assumes "run angleOf frames initial = Inr s" and "\<forall>fr\<in>set frames. snd fr \<noteq> 0"
    and "updateLogic angleOf p nowSec s = Inr s'" and "state s = FLEXING" and "state s' = BENT"
  shows "\<exists>rs es fs. repStartTime s = Some rs \<and> extendStartTime s = Some es \<and>
      flexStartTime s = Some fs \<and>
      (speedFeedback s' = Some \<lparr>text_of = RepTooFast (repCount s'), level_of = Bad\<rparr> \<longleftrightarrow>
         fsub nowSec rs < 5 \<or> fsub fs es < 2 \<or> fsub nowSec fs < 2) \<and>
      (speedFeedback s' = Some \<lparr>text_of = RepGoodTempo (repCount s'), level_of = Ok\<rparr> \<longleftrightarrow>
         \<not> (fsub nowSec rs < 5 \<or> fsub fs es < 2 \<or> fsub nowSec fs < 2)) \<and>
      (nowSec - rs = 3 \<longrightarrow>
         speedFeedback s' = Some \<lparr>text_of = RepTooFast (repCount s'), level_of = Bad\<rparr>)"
proof -
  from run_invariants [OF initial_ok(1), of angleOf frames] obtain s1
    where s1: "run angleOf frames initial = Inr s1" "fields_ok s1"
      "times_nonzero initial \<and> (\<forall>fr\<in>set frames. snd fr \<noteq> 0) \<longrightarrow> times_nonzero s1"
    by blast
  from s1(1) assms(1) have e: "s1 = s" by simp
  from s1(2) have ok: "fields_ok s" unfolding e .
  from s1(3) assms(2) initial_ok(2) have nz: "times_nonzero s" unfolding e by blast
  from ok nz assms(4) obtain rs es fs
    where f: "repStartTime s = Some rs" "extendStartTime s = Some es" "flexStartTime s = Some fs"
      and z: "rs \<noteq> 0" "es \<noteq> 0" "fs \<noteq> 0"
    by (auto simp: fields_ok_def times_nonzero_def)
  from updateLogic_moved [OF assms(3)] assms(4,5) obtain lg sm
    where r: "repStep sm nowSec (s\<lparr>lastGood := lg, smoothedAngle := Some sm\<rparr>) = Inr s'"
    by auto
  let ?fast = "fsub nowSec rs < 5 \<or> fsub fs es < 2 \<or> fsub nowSec fs < 2"
  have oe: "or_else (Some rs) nowSec = rs" "or_else (Some fs) nowSec = fs"
    "or_else (Some es) rs = es"
    using z by (simp_all add: or_else_def)
  let ?s0 = "s\<lparr>lastGood := lg, smoothedAngle := Some sm\<rparr>"
  have st0: "state ?s0 = FLEXING" using assms(4) by simp
  note R = repStep_FLEXING [OF st0, of sm nowSec]
  have le: "sm \<le> 110"
  proof (rule ccontr)
    assume "\<not> sm \<le> 110"
    with R r have "s' = ?s0" by simp
    with assms(4,5) show False by simp
  qed
  from R r le have sf0: "speedFeedback s' = Some
        (if fsub nowSec (or_else (repStartTime ?s0) nowSec) < 5
            \<or> fsub (or_else (flexStartTime ?s0) nowSec)
                 (or_else (extendStartTime ?s0) (or_else (repStartTime ?s0) nowSec)) < 2
            \<or> fsub nowSec (or_else (flexStartTime ?s0) nowSec) < 2
         then \<lparr>text_of = RepTooFast (repCount ?s0 + 1), level_of = Bad\<rparr>
         else \<lparr>text_of = RepGoodTempo (repCount ?s0 + 1), level_of = Ok\<rparr>)"
    and rc0: "repCount s' = repCount ?s0 + 1"
    by simp_all
  have sf: "speedFeedback s' = Some (if ?fast
      then \<lparr>text_of = RepTooFast (repCount s + 1), level_of = Bad\<rparr>
      else \<lparr>text_of = RepGoodTempo (repCount s + 1), level_of = Ok\<rparr>)"
    unfolding sf0 by (simp add: f oe)
  have rc: "repCount s' = repCount s + 1"
    unfolding rc0 by simp
  have three: "fsub nowSec rs < 5" if "nowSec - rs = 3"
    using that by (simp add: fsub_def fl64_numeral)
  have "(speedFeedback s' = Some \<lparr>text_of = RepTooFast (repCount s'), level_of = Bad\<rparr>) = ?fast"
    unfolding sf rc by simp
  moreover have "(speedFeedback s' = Some \<lparr>text_of = RepGoodTempo (repCount s'), level_of = Ok\<rparr>)
      = (\<not> ?fast)"
    unfolding sf rc by simp
  moreover have "nowSec - rs = 3 \<longrightarrow>
      speedFeedback s' = Some \<lparr>text_of = RepTooFast (repCount s'), level_of = Bad\<rparr>"
    unfolding sf rc using three by simp
  ultimately show ?thesis using f by simp
qed

theorem tempo_classification_witness:
  "run example_angle [(example_pose 128, 1), (example_pose 0, 4)] initial = Inr example_flexing \<and>
   state example_flexing = FLEXING \<and> state example_done = BENT \<and>
   repStartTime example_flexing = Some 1 \<and> extendStartTime example_flexing = Some 1 \<and>
   flexStartTime example_flexing = Some 4 \<and>
   updateLogic example_angle (example_pose 0) 7 example_flexing = Inr example_done \<and>
   speedFeedback example_done = Some \<lparr>text_of = RepGoodTempo 1, level_of = Ok\<rparr> \<and>
   \<not> fsub 7 1 < 5 \<and> \<not> fsub 4 1 < 2 \<and> \<not> fsub 7 4 < 2 \<and>
   updateLogic example_angle (example_pose 0) 4 example_flexing =
     Inr (example_done\<lparr>lastGood := example_cache 0 4,
            speedFeedback := Some \<lparr>text_of = RepTooFast 1, level_of = Bad\<rparr>\<rparr>) \<and>
   (4::real) - 1 = 3"
  using tempo_classification [of example_angle "[(example_pose 128, 1), (example_pose 0, 4)]"
      example_flexing "example_pose 0" 7 example_done]
    tempo_classification [of example_angle "[(example_pose 128, 1), (example_pose 0, 4)]"
      example_flexing "example_pose 0" 4
      "example_done\<lparr>lastGood := example_cache 0 4,
            speedFeedback := Some \<lparr>text_of = RepTooFast 1, level_of = Bad\<rparr>\<rparr>"]
    example_run(1) example_step3 example_step3_early
  by (simp add: example_flexing_def example_done_def fsub_def fl64_numeral)

section \<open>The keypoint cache\<close>

text \<open>
  C5. For every pose, tracked landmark and time: when the pose contains a keypoint of
  that name (the one keypoint of that name) with confidence at least 0.3,
  \<^verbatim>\<open>getStableKeypoint\<close> stores its position and score in the cache entry of the
  landmark, sets the timestamp and returns the keypoint; when the pose contains no such
  keypoint, it returns the cached entry unchanged, whatever its confidence, if there is
  one and the time since the cache timestamp is at most 0.3 seconds, and null otherwise;
  in particular it returns null once more than 0.3 seconds have passed.
\<close>

theorem stable_keypoint:
  "(kp \<in> set (pose_keypoints p) \<and> name kp = Some (key lm) \<and> minScore_default \<le> score kp \<and>
      (\<forall>k\<in>set (pose_keypoints p). name k = Some (key lm) \<longrightarrow> k = kp) \<longrightarrow>
      getStableKeypoint p lm nowSec minScore_default lg =
        (Some kp,
         (set_entry lm \<lparr>name = None, kp_x = kp_x kp, kp_y = kp_y kp, score = score kp\<rparr>
            lg)\<lparr>timestamp := nowSec\<rparr>)) \<and>
   (\<not> (\<exists>k\<in>set (pose_keypoints p). name k = Some (key lm) \<and> minScore_default \<le> score k) \<longrightarrow>
      getStableKeypoint p lm nowSec minScore_default lg =
        (if entry lm lg \<noteq> None \<and> fsub nowSec (timestamp lg) \<le> MAX_GAP_SEC
         then (entry lm lg, lg) else (None, lg))) \<and>
   (\<not> (\<exists>k\<in>set (pose_keypoints p). name k = Some (key lm) \<and> minScore_default \<le> score k) \<and>
      MAX_GAP_SEC < fsub nowSec (timestamp lg) \<longrightarrow>
      getStableKeypoint p lm nowSec minScore_default lg = (None, lg))"
proof (intro conjI impI)
  assume "kp \<in> set (pose_keypoints p) \<and> name kp = Some (key lm) \<and> minScore_default \<le> score kp \<and>
      (\<forall>k\<in>set (pose_keypoints p). name k = Some (key lm) \<longrightarrow> k = kp)"
  then have "getKeypoint p (key lm) minScore_default = Some kp"
    by (intro getKeypoint_unique) auto
  then show "getStableKeypoint p lm nowSec minScore_default lg =
        (Some kp,
         (set_entry lm \<lparr>name = None, kp_x = kp_x kp, kp_y = kp_y kp, score = score kp\<rparr>
            lg)\<lparr>timestamp := nowSec\<rparr>)"
    by (simp add: getStableKeypoint_def)
next
  assume "\<not> (\<exists>k\<in>set (pose_keypoints p). name k = Some (key lm) \<and> minScore_default \<le> score k)"
  from getKeypoint_absent [OF this]
  show "getStableKeypoint p lm nowSec minScore_default lg =
        (if entry lm lg \<noteq> None \<and> fsub nowSec (timestamp lg) \<le> MAX_GAP_SEC
         then (entry lm lg, lg) else (None, lg))"
    by (simp add: getStableKeypoint_def)
next
  assume a: "\<not> (\<exists>k\<in>set (pose_keypoints p). name k = Some (key lm) \<and> minScore_default \<le> score k) \<and>
      MAX_GAP_SEC < fsub nowSec (timestamp lg)"
  then have "getKeypoint p (key lm) minScore_default = None"
    by (intro getKeypoint_absent) simp
  with a show "getStableKeypoint p lm nowSec minScore_default lg = (None, lg)"
    by (simp add: getStableKeypoint_def)
qed

theorem stable_keypoint_witness:
  "getStableKeypoint (example_pose 0) RightKnee 1 minScore_default example_stale =
     (Some \<lparr>name = Some ''right_knee'', kp_x = 0, kp_y = 0, score = 1\<rparr>,
      example_stale\<lparr>right_knee := Some \<lparr>name = None, kp_x = 0, kp_y = 0, score = 1\<rparr>,
                       timestamp := 1\<rparr>) \<and>
   getStableKeypoint None RightHip (5 / 4) minScore_default example_stale =
     (Some \<lparr>name = None, kp_x = 3, kp_y = 4, score = 1 / 10\<rparr>, example_stale) \<and>
   fsub (5 / 4) (timestamp example_stale) \<le> MAX_GAP_SEC \<and>
   getStableKeypoint None RightHip 2 minScore_default example_stale = (None, example_stale) \<and>
   MAX_GAP_SEC < fsub 2 (timestamp example_stale)"
  using stable_keypoint [of "\<lparr>name = Some ''right_knee'', kp_x = 0, kp_y = 0, score = 1\<rparr>"
      "example_pose 0" RightKnee 1 example_stale]
    stable_keypoint [of "\<lparr>name = None, kp_x = 0, kp_y = 0, score = 0\<rparr>" None RightHip "5 / 4" example_stale]
    stable_keypoint [of "\<lparr>name = None, kp_x = 0, kp_y = 0, score = 0\<rparr>" None RightHip 2 example_stale]
    gap_examples
  by (simp add: pose_keypoints_def example_pose_def example_stale_def minScore_default_def
      three_tenths)

text \<open>
  C6. A fresh confident observation of one landmark overwrites the cache entry of that
  landmark only, leaves the entries of the other two as they were, and sets the one
  timestamp: from then on the fallback of every landmark, the other two included,
  measures its 0.3 seconds from this observation.
\<close>

theorem shared_timestamp:
  assumes "getKeypoint p (key lm) minScore_default = Some direct"
  shows "\<exists>lg'. getStableKeypoint p lm nowSec minScore_default lg = (Some direct, lg') \<and>
     entry lm lg' = Some \<lparr>name = None, kp_x = kp_x direct, kp_y = kp_y direct,
                           score = score direct\<rparr> \<and>
     timestamp lg' = nowSec \<and>
     (\<forall>lm'. lm' \<noteq> lm \<longrightarrow> entry lm' lg' = entry lm' lg) \<and>
     (\<forall>lm' p' t'. getKeypoint p' (key lm') minScore_default = None \<and> entry lm' lg' \<noteq> None \<and>
         fsub t' nowSec \<le> MAX_GAP_SEC \<longrightarrow>
         getStableKeypoint p' lm' t' minScore_default lg' = (entry lm' lg', lg'))"
proof -
  let ?lg' = "(set_entry lm \<lparr>name = None, kp_x = kp_x direct, kp_y = kp_y direct,
                              score = score direct\<rparr> lg)\<lparr>timestamp := nowSec\<rparr>"
  have 1: "getStableKeypoint p lm nowSec minScore_default lg = (Some direct, ?lg')"
    using assms by (simp add: getStableKeypoint_def)
  have 2: "entry lm ?lg' = Some \<lparr>name = None, kp_x = kp_x direct, kp_y = kp_y direct,
                           score = score direct\<rparr>"
    by (cases lm) simp_all
  have 3: "timestamp ?lg' = nowSec" by simp
  have 4: "entry lm' ?lg' = entry lm' lg" if "lm' \<noteq> lm" for lm'
    using that by (cases lm; cases lm') simp_all
  have 5: "getStableKeypoint p' lm' t' minScore_default ?lg' = (entry lm' ?lg', ?lg')"
    if "getKeypoint p' (key lm') minScore_default = None" "entry lm' ?lg' \<noteq> None"
      "fsub t' nowSec \<le> MAX_GAP_SEC" for lm' p' t'
    using that unfolding getStableKeypoint_def by simp
  show ?thesis
  proof (intro exI conjI allI impI)
    show "getStableKeypoint p lm nowSec minScore_default lg = (Some direct, ?lg')" by (rule 1)
    show "entry lm ?lg' = Some \<lparr>name = None, kp_x = kp_x direct, kp_y = kp_y direct,
                           score = score direct\<rparr>" by (rule 2)
    show "timestamp ?lg' = nowSec" by (rule 3)
    show "entry lm' ?lg' = entry lm' lg" if "lm' \<noteq> lm" for lm' by (rule 4 [OF that])
    show "getStableKeypoint p' lm' t' minScore_default ?lg' = (entry lm' ?lg', ?lg')"
      if "getKeypoint p' (key lm') minScore_default = None \<and> entry lm' ?lg' \<noteq> None \<and>
         fsub t' nowSec \<le> MAX_GAP_SEC" for lm' p' t'
      using that by (intro 5) simp_all
  qed
qed

theorem shared_timestamp_witness:
  "getKeypoint (example_pose 0) (key RightKnee) minScore_default =
     Some \<lparr>name = Some ''right_knee'', kp_x = 0, kp_y = 0, score = 1\<rparr> \<and>
   getStableKeypoint (example_pose 0) RightKnee 10 minScore_default example_stale =
     (Some \<lparr>name = Some ''right_knee'', kp_x = 0, kp_y = 0, score = 1\<rparr>,
      example_stale\<lparr>right_knee := Some \<lparr>name = None, kp_x = 0, kp_y = 0, score = 1\<rparr>,
                       timestamp := 10\<rparr>) \<and>
   getStableKeypoint None RightHip (41 / 4) minScore_default
     (example_stale\<lparr>right_knee := Some \<lparr>name = None, kp_x = 0, kp_y = 0, score = 1\<rparr>,
                       timestamp := 10\<rparr>) =
     (Some \<lparr>name = None, kp_x = 3, kp_y = 4, score = 1 / 10\<rparr>,
      example_stale\<lparr>right_knee := Some \<lparr>name = None, kp_x = 0, kp_y = 0, score = 1\<rparr>,
                       timestamp := 10\<rparr>) \<and>
   getStableKeypoint None RightHip (41 / 4) minScore_default example_stale = (None, example_stale)"
proof -
  have g: "getKeypoint (example_pose 0) (key RightKnee) minScore_default =
     Some \<lparr>name = Some ''right_knee'', kp_x = 0, kp_y = 0, score = 1\<rparr>"
    by (simp add: getKeypoint_example)
  have n: "getKeypoint None (key RightHip) minScore_default = None"
    by (simp add: getKeypoint_def)
  from shared_timestamp [OF g, of 10 example_stale] obtain lg'
    where 1: "getStableKeypoint (example_pose 0) RightKnee 10 minScore_default example_stale =
        (Some \<lparr>name = Some ''right_knee'', kp_x = 0, kp_y = 0, score = 1\<rparr>, lg')"
      and 2: "\<forall>lm'. lm' \<noteq> RightKnee \<longrightarrow> entry lm' lg' = entry lm' example_stale"
      and 3: "\<forall>lm' p' t'. getKeypoint p' (key lm') minScore_default = None \<and> entry lm' lg' \<noteq> None \<and>
         fsub t' 10 \<le> MAX_GAP_SEC \<longrightarrow>
         getStableKeypoint p' lm' t' minScore_default lg' = (entry lm' lg', lg')"
    by blast
  have e: "lg' = example_stale\<lparr>right_knee := Some \<lparr>name = None, kp_x = 0, kp_y = 0, score = 1\<rparr>,
                       timestamp := 10\<rparr>"
    using 1 by (simp add: getStableKeypoint_def getKeypoint_example)
  from 2 [rule_format, of RightHip] have h: "entry RightHip lg' = entry RightHip example_stale"
    by simp
  from 3 [rule_format, of None RightHip "41 / 4"] n h gap_examples(3)
  have 4: "getStableKeypoint None RightHip (41 / 4) minScore_default lg' = (entry RightHip lg', lg')"
    by (simp add: example_stale_def)
  have 5: "getStableKeypoint None RightHip (41 / 4) minScore_default example_stale = (None, example_stale)"
    using gap_examples(4) by (simp add: getStableKeypoint_def getKeypoint_def example_stale_def)
  from g 1 4 5 h show ?thesis unfolding e by (simp add: example_stale_def)
qed

section \<open>The angle and its smoothing\<close>




text \<open>
  C8, as the code has it. The first valid sample \<open>a\<close> is blended with itself: the
  smoothed value is \<^verbatim>\<open>0.3 * a + 0.7 * a\<close> in double arithmetic, within
  \<open>3 * 2 ^ -53 * \<bar>a\<bar> + 2 ^ -1073\<close> of \<open>a\<close>. On each later valid sample it becomes
  \<^verbatim>\<open>0.3 * a + 0.7 * previous\<close> in double arithmetic (\<^verbatim>\<open>1 - 0.3\<close> is the double
  \<^verbatim>\<open>0.7\<close>). Under a constant input \<open>a\<close> it stays within
  \<open>2 ^ -49 * \<bar>a\<bar> + 2 ^ -1071\<close> of \<open>a\<close> on every step. A frame with a valid
  sample stores that value in \<^verbatim>\<open>smoothedAngle\<close>.
\<close>

theorem smoothing_rounded:
  "smooth a None = fadd (fmul (fl64 (3 / 10)) a) (fmul (fl64 (7 / 10)) a) \<and>
   \<bar>smooth a None - a\<bar> \<le> 3 * \<bar>a\<bar> / 2 ^ 53 + 4 * eta \<and>
   smooth a (Some prev) = fadd (fmul (fl64 (3 / 10)) a) (fmul (fl64 (7 / 10)) prev) \<and>
   (0 < n \<longrightarrow>
      (\<exists>w. smooth_all (replicate n a) None = Some w \<and> \<bar>w - a\<bar> \<le> \<bar>a\<bar> / 2 ^ 49 + 16 * eta)) \<and>
   (getStableKeypoint p RightHip nowSec minScore_default (lastGood s) = (Some h, lg1) \<and>
    getStableKeypoint p RightKnee nowSec minScore_default lg1 = (Some k, lg2) \<and>
    getStableKeypoint p RightAnkle nowSec minScore_default lg2 = (Some j, lg3) \<and>
    angleOf h k j = Some (Num a) \<and> updateLogic angleOf p nowSec s = Inr s' \<longrightarrow>
      smoothedAngle s' = Some (smooth a (smoothedAngle s)))"
proof (intro conjI impI)
  show "smooth a None = fadd (fmul (fl64 (3 / 10)) a) (fmul (fl64 (7 / 10)) a)"
    by (simp add: smooth_literals)
  show "\<bar>smooth a None - a\<bar> \<le> 3 * \<bar>a\<bar> / 2 ^ 53 + 4 * eta"
    by (rule smooth_first_error)
  show "smooth a (Some prev) = fadd (fmul (fl64 (3 / 10)) a) (fmul (fl64 (7 / 10)) prev)"
    by (simp add: smooth_literals)
  show "\<exists>w. smooth_all (replicate n a) None = Some w \<and> \<bar>w - a\<bar> \<le> \<bar>a\<bar> / 2 ^ 49 + 16 * eta"
    if "0 < n" by (rule smooth_constant [OF that])
next
  assume a: "getStableKeypoint p RightHip nowSec minScore_default (lastGood s) = (Some h, lg1) \<and>
    getStableKeypoint p RightKnee nowSec minScore_default lg1 = (Some k, lg2) \<and>
    getStableKeypoint p RightAnkle nowSec minScore_default lg2 = (Some j, lg3) \<and>
    angleOf h k j = Some (Num a) \<and> updateLogic angleOf p nowSec s = Inr s'"
  then have "updateLogic angleOf p nowSec s =
     repStep (smooth a (smoothedAngle s)) nowSec
       (s\<lparr>lastGood := lg3, smoothedAngle := Some (smooth a (smoothedAngle s))\<rparr>)"
    using updateLogic_sample [of p nowSec s h lg1 k lg2 j lg3 angleOf a] by blast
  with a have "repStep (smooth a (smoothedAngle s)) nowSec
       (s\<lparr>lastGood := lg3, smoothedAngle := Some (smooth a (smoothedAngle s))\<rparr>) = Inr s'"
    by simp
  from repStep_smoothedAngle [OF this]
  show "smoothedAngle s' = Some (smooth a (smoothedAngle s))" by simp
qed

theorem smoothing_rounded_witness:
  "(0::nat) < 2 \<and>
   smooth_all (replicate 2 128) None = Some 128 \<and>
   \<bar>smooth 128 None - 128\<bar> \<le> 3 * \<bar>128\<bar> / 2 ^ 53 + 4 * eta \<and>
   getStableKeypoint (example_pose 128) RightHip 1 minScore_default (lastGood initial) =
     (Some \<lparr>name = Some ''right_hip'', kp_x = 128, kp_y = 0, score = 1\<rparr>,
      \<lparr>right_hip = Some \<lparr>name = None, kp_x = 128, kp_y = 0, score = 1\<rparr>,
       right_knee = None, right_ankle = None, timestamp = 1\<rparr>) \<and>
   getStableKeypoint (example_pose 128) RightKnee 1 minScore_default
     \<lparr>right_hip = Some \<lparr>name = None, kp_x = 128, kp_y = 0, score = 1\<rparr>,
      right_knee = None, right_ankle = None, timestamp = 1\<rparr> =
     (Some \<lparr>name = Some ''right_knee'', kp_x = 0, kp_y = 0, score = 1\<rparr>,
      \<lparr>right_hip = Some \<lparr>name = None, kp_x = 128, kp_y = 0, score = 1\<rparr>,
       right_knee = Some \<lparr>name = None, kp_x = 0, kp_y = 0, score = 1\<rparr>,
       right_ankle = None, timestamp = 1\<rparr>) \<and>
   getStableKeypoint (example_pose 128) RightAnkle 1 minScore_default
     \<lparr>right_hip = Some \<lparr>name = None, kp_x = 128, kp_y = 0, score = 1\<rparr>,
      right_knee = Some \<lparr>name = None, kp_x = 0, kp_y = 0, score = 1\<rparr>,
      right_ankle = None, timestamp = 1\<rparr> =
     (Some \<lparr>name = Some ''right_ankle'', kp_x = 0, kp_y = 1, score = 1\<rparr>, example_cache 128 1) \<and>
   example_angle \<lparr>name = Some ''right_hip'', kp_x = 128, kp_y = 0, score = 1\<rparr>
     \<lparr>name = Some ''right_knee'', kp_x = 0, kp_y = 0, score = 1\<rparr>
     \<lparr>name = Some ''right_ankle'', kp_x = 0, kp_y = 1, score = 1\<rparr> = Some (Num 128) \<and>
   updateLogic example_angle (example_pose 128) 1 initial = Inr example_extending \<and>
   smoothedAngle example_extending = Some (smooth 128 (smoothedAngle initial))"
proof -
  have again: "smooth 128 (Some 128) = 128"
    using smooth_128_first by (simp add: smooth_def)
  have two: "replicate 2 (128::real) = [128, 128]"
    by (simp add: eval_nat_numeral)
  have g1: "getStableKeypoint (example_pose 128) RightHip 1 minScore_default (lastGood initial) =
     (Some \<lparr>name = Some ''right_hip'', kp_x = 128, kp_y = 0, score = 1\<rparr>,
      \<lparr>right_hip = Some \<lparr>name = None, kp_x = 128, kp_y = 0, score = 1\<rparr>,
       right_knee = None, right_ankle = None, timestamp = 1\<rparr>)"
    by (simp add: getStableKeypoint_def getKeypoint_example initial_def)
  have g2: "getStableKeypoint (example_pose 128) RightKnee 1 minScore_default
     \<lparr>right_hip = Some \<lparr>name = None, kp_x = 128, kp_y = 0, score = 1\<rparr>,
      right_knee = None, right_ankle = None, timestamp = 1\<rparr> =
     (Some \<lparr>name = Some ''right_knee'', kp_x = 0, kp_y = 0, score = 1\<rparr>,
      \<lparr>right_hip = Some \<lparr>name = None, kp_x = 128, kp_y = 0, score = 1\<rparr>,
       right_knee = Some \<lparr>name = None, kp_x = 0, kp_y = 0, score = 1\<rparr>,
       right_ankle = None, timestamp = 1\<rparr>)"
    by (simp add: getStableKeypoint_def getKeypoint_example)
  have g3: "getStableKeypoint (example_pose 128) RightAnkle 1 minScore_default
     \<lparr>right_hip = Some \<lparr>name = None, kp_x = 128, kp_y = 0, score = 1\<rparr>,
      right_knee = Some \<lparr>name = None, kp_x = 0, kp_y = 0, score = 1\<rparr>,
      right_ankle = None, timestamp = 1\<rparr> =
     (Some \<lparr>name = Some ''right_ankle'', kp_x = 0, kp_y = 1, score = 1\<rparr>, example_cache 128 1)"
    by (simp add: getStableKeypoint_def getKeypoint_example example_cache_def)
  have g4: "example_angle \<lparr>name = Some ''right_hip'', kp_x = 128, kp_y = 0, score = 1\<rparr>
     \<lparr>name = Some ''right_knee'', kp_x = 0, kp_y = 0, score = 1\<rparr>
     \<lparr>name = Some ''right_ankle'', kp_x = 0, kp_y = 1, score = 1\<rparr> = Some (Num 128)"
    by (simp add: example_angle_def)
  let ?h = "\<lparr>name = Some ''right_hip'', kp_x = 128, kp_y = 0, score = 1\<rparr>"
  let ?k = "\<lparr>name = Some ''right_knee'', kp_x = 0, kp_y = 0, score = 1\<rparr>"
  let ?j = "\<lparr>name = Some ''right_ankle'', kp_x = 0, kp_y = 1, score = 1\<rparr>"
  let ?lg1 = "\<lparr>right_hip = Some \<lparr>name = None, kp_x = 128, kp_y = 0, score = 1\<rparr>,
       right_knee = None, right_ankle = None, timestamp = 1\<rparr>"
  let ?lg2 = "\<lparr>right_hip = Some \<lparr>name = None, kp_x = 128, kp_y = 0, score = 1\<rparr>,
       right_knee = Some \<lparr>name = None, kp_x = 0, kp_y = 0, score = 1\<rparr>,
       right_ankle = None, timestamp = 1\<rparr>"
  from smoothing_rounded [where a = 128 and n = 2 and p = "example_pose 128" and nowSec = 1
      and s = initial and angleOf = example_angle and s' = example_extending
      and h = ?h and k = ?k and j = ?j and ?lg1.0 = ?lg1 and ?lg2.0 = ?lg2
      and ?lg3.0 = "example_cache 128 1"] g1 g2 g3 g4 example_step1
  show ?thesis
    by (simp add: two again smooth_128_first)
qed

text \<open>
  C8 as the specification states it fails: after a first sample of 111 degrees the
  smoothed value is not 111 but the next double below it, 110.99999999999999, and under
  the constant input 111 it stays there.
\<close>

theorem smoothing_counterexample:
  "smooth 111 None = 7810930603720703 / 70368744177664 \<and>
   smooth 111 None \<noteq> 111 \<and>
   smooth 111 (Some (smooth 111 None)) = 7810930603720703 / 70368744177664 \<and>
   smooth 111 (Some (smooth 111 None)) \<noteq> 111 \<and>
   updateLogic example_angle (example_pose 111) 1 initial =
     Inr (example_extending\<lparr>lastGood := example_cache 111 1,
            smoothedAngle := Some (7810930603720703 / 70368744177664),
            maxAngleThisRep := Some (7810930603720703 / 70368744177664)\<rparr>)"
  unfolding updateLogic_example
  by (simp add: smooth_111 initial_def repStep_BENT example_extending_def)

section \<open>Frames without a usable angle\<close>

text \<open>
  C9. When a landmark is not resolved, or \<^verbatim>\<open>computeKneeAngle\<close> returns
  \<^verbatim>\<open>null\<close> (a vector of length zero) or \<^verbatim>\<open>NaN\<close>, the frame returns without
  an exception, writes only the keypoint cache and the angle display, and leaves the
  state, the rep counter, the three times, the maximum angle and the smoothed angle as
  they were.
\<close>

theorem frame_without_sample:
  assumes "getStableKeypoint p RightHip nowSec minScore_default (lastGood s) = (hip, lg1)"
    and "getStableKeypoint p RightKnee nowSec minScore_default lg1 = (knee, lg2)"
    and "getStableKeypoint p RightAnkle nowSec minScore_default lg2 = (ankle, lg3)"
    and "hip = None \<or> knee = None \<or> ankle = None \<or>
         (\<exists>h k a. hip = Some h \<and> knee = Some k \<and> ankle = Some a \<and>
            (angleOf h k a = None \<or> angleOf h k a = Some NaN))"
  shows "\<exists>s'. updateLogic angleOf p nowSec s = Inr s' \<and>
           s' = s\<lparr>lastGood := lg3,
                  angleDisplay := Some (if hip = None \<or> knee = None \<or> ankle = None
                                        then NotDetected else Invalid)\<rparr> \<and>
           state s' = state s \<and> repCount s' = repCount s \<and>
           repStartTime s' = repStartTime s \<and> extendStartTime s' = extendStartTime s \<and>
           flexStartTime s' = flexStartTime s \<and> maxAngleThisRep s' = maxAngleThisRep s \<and>
           smoothedAngle s' = smoothedAngle s"
proof -
  have "updateLogic angleOf p nowSec s =
      Inr (s\<lparr>lastGood := lg3,
             angleDisplay := Some (if hip = None \<or> knee = None \<or> ankle = None
                                   then NotDetected else Invalid)\<rparr>)"
    using assms(4) unfolding updateLogic_def Let_def assms(1-3) prod.case
    by (cases hip; cases knee; cases ankle) auto
  then show ?thesis by simp
qed

theorem frame_without_sample_witness:
  "getStableKeypoint None RightHip 5 minScore_default (lastGood example_flexing)
     = (None, lastGood example_flexing) \<and>
   getStableKeypoint None RightKnee 5 minScore_default (lastGood example_flexing)
     = (None, lastGood example_flexing) \<and>
   getStableKeypoint None RightAnkle 5 minScore_default (lastGood example_flexing)
     = (None, lastGood example_flexing) \<and>
   updateLogic example_angle None 5 example_flexing
     = Inr (example_flexing\<lparr>angleDisplay := Some NotDetected\<rparr>) \<and>
   updateLogic (\<lambda>h k a. Some NaN) (example_pose 0) 5 example_flexing
     = Inr (example_flexing\<lparr>lastGood := example_cache 0 5, angleDisplay := Some Invalid\<rparr>) \<and>
   updateLogic (\<lambda>h k a. None) (example_pose 0) 5 example_flexing
     = Inr (example_flexing\<lparr>lastGood := example_cache 0 5, angleDisplay := Some Invalid\<rparr>)"
proof -
  have g: "getStableKeypoint None lm 5 minScore_default (lastGood example_flexing)
      = (None, lastGood example_flexing)" for lm
    by (simp add: getStableKeypoint_def getKeypoint_def example_flexing_def example_cache_def
        fsub_def fl64_numeral MAX_GAP_SEC_def three_tenths)
  have h: "getStableKeypoint (example_pose 0) RightHip 5 minScore_default (lastGood example_flexing)
      = (Some \<lparr>name = Some ''right_hip'', kp_x = 0, kp_y = 0, score = 1\<rparr>, example_cache 0 5)"
    "getStableKeypoint (example_pose 0) RightKnee 5 minScore_default (example_cache 0 5)
      = (Some \<lparr>name = Some ''right_knee'', kp_x = 0, kp_y = 0, score = 1\<rparr>, example_cache 0 5)"
    "getStableKeypoint (example_pose 0) RightAnkle 5 minScore_default (example_cache 0 5)
      = (Some \<lparr>name = Some ''right_ankle'', kp_x = 0, kp_y = 1, score = 1\<rparr>, example_cache 0 5)"
    by (simp_all add: getStableKeypoint_def getKeypoint_example example_flexing_def
        example_cache_def)
  show ?thesis
    using frame_without_sample [OF g g g, where angleOf = example_angle]
      frame_without_sample [OF h, where angleOf = "\<lambda>h k a. Some NaN"]
      frame_without_sample [OF h, where angleOf = "\<lambda>h k a. None"] g
    by simp
qed

section \<open>The working fields of a rep\<close>

text \<open>
  C10. Every run from the initial session ends in a session (no frame throws) in which
  the four working fields are all null when the state is BENT, the rep start, the
  extension start and the maximum angle are set when it is EXTENDING, and all four are
  set when it is FLEXING. When no frame's time is 0, the fallbacks of the three
  \<^verbatim>\<open>||\<close> chains of the duration computation are not taken at a completion: each
  chain yields the recorded time.
\<close>

theorem working_fields:
  "\<exists>s. run angleOf frames initial = Inr s \<and>
     (state s = BENT \<longrightarrow> repStartTime s = None \<and> extendStartTime s = None \<and>
        flexStartTime s = None \<and> maxAngleThisRep s = None) \<and>
     (state s = EXTENDING \<longrightarrow> repStartTime s \<noteq> None \<and> extendStartTime s \<noteq> None \<and>
        maxAngleThisRep s \<noteq> None) \<and>
     (state s = FLEXING \<longrightarrow> repStartTime s \<noteq> None \<and> extendStartTime s \<noteq> None \<and>
        flexStartTime s \<noteq> None \<and> maxAngleThisRep s \<noteq> None) \<and>
     (state s = FLEXING \<and> (\<forall>fr\<in>set frames. snd fr \<noteq> 0) \<longrightarrow>
        (\<exists>rs es fs. repStartTime s = Some rs \<and> extendStartTime s = Some es \<and>
           flexStartTime s = Some fs \<and>
           (\<forall>e. or_else (repStartTime s) e = rs \<and> or_else (flexStartTime s) e = fs \<and>
                or_else (extendStartTime s) (or_else (repStartTime s) e) = es)))"
proof -
  from run_invariants [OF initial_ok(1), of angleOf frames] obtain s
    where r: "run angleOf frames initial = Inr s" and ok: "fields_ok s"
      and nz: "(\<forall>fr\<in>set frames. snd fr \<noteq> 0) \<longrightarrow> times_nonzero s"
    using initial_ok(2) by blast
  have "\<exists>rs es fs. repStartTime s = Some rs \<and> extendStartTime s = Some es \<and>
           flexStartTime s = Some fs \<and>
           (\<forall>e. or_else (repStartTime s) e = rs \<and> or_else (flexStartTime s) e = fs \<and>
                or_else (extendStartTime s) (or_else (repStartTime s) e) = es)"
    if "state s = FLEXING" "\<forall>fr\<in>set frames. snd fr \<noteq> 0"
    using that ok nz by (auto simp: fields_ok_def times_nonzero_def or_else_def)
  with r ok show ?thesis
    by (intro exI [of _ s]) (auto simp: fields_ok_def)
qed

theorem working_fields_witness:
  "run example_angle [(example_pose 128, 1), (example_pose 0, 4)] initial = Inr example_flexing \<and>
   state example_flexing = FLEXING \<and>
   snd (example_pose 128, 1::real) \<noteq> 0 \<and> snd (example_pose 0, 4::real) \<noteq> 0 \<and>
   repStartTime example_flexing = Some 1 \<and> extendStartTime example_flexing = Some 1 \<and>
   flexStartTime example_flexing = Some 4 \<and> maxAngleThisRep example_flexing \<noteq> None \<and>
   or_else (repStartTime example_flexing) 7 = 1 \<and>
   or_else (flexStartTime example_flexing) 7 = 4 \<and>
   or_else (extendStartTime example_flexing) (or_else (repStartTime example_flexing) 7) = 1"
  using working_fields [of example_angle "[(example_pose 128, 1), (example_pose 0, 4)]"]
    example_run(1)
  by (auto simp: example_flexing_def)

end
